theory Spec2Isabelle
  imports Complex_Main
begin

section \<open>The uncertainty compute of the LAMMPS plugin (compute\_flare\_std\_atom.cpp)\<close>

text \<open>
  Conventions of the embedding.
  \<^item> A C++ \<open>double\<close> is a \<open>real\<close>: rounding is not modelled, the theorems are about the
    algebraic content of the code.
  \<^item> A C++ \<open>int\<close> has 32 bits. The hyper-parameters read from the potential file are
    \<open>int\<close> values, and every sum and product that \<open>read_file\<close> forms from them is reduced
    to the signed 32-bit range by \<open>wrap32\<close>: the two's-complement result. (Signed overflow
    is undefined in C++; the two's-complement result is what the usual compilers produce.) Atom indices, atom counts
    and loop counters the host guarantees to be non-negative are \<open>nat\<close>.
  \<^item> An array reached through a raw pointer whose size the host decides (\<open>stds\<close>,
    \<open>desc_derv\<close>, \<open>x\<close>, \<open>type\<close>, \<open>ilist\<close>, \<open>numneigh\<close>, \<open>firstneigh\<close>, the communication
    buffer) is a store: a total function from index to value. The theorems name the index
    ranges they rely on. The array \<open>beta\<close>, whose size the code itself fixes, is a list and a
    write or a read past its end is an error value.
  \<^item> \<open>error->all\<close> and \<open>error->one\<close> abort the run: a function that can reach them returns
    \<open>error + state\<close>, \<open>Inl\<close> being the abort.
  \<^item> A \<open>for\<close> loop over a counter is a \<open>fold\<close> over the range of the counter; the body of
    a loop is a function of its own where that helps the proofs.
  \<^item> Names are those of the source. Where HOL has the name already, the variable \<open>comp\<close>
    is written \<open>cmp\<close>, the cutoff passed down to a loop \<open>rcut\<close>, and the members of the
    host's objects carry the object as a prefix (\<open>atom->nlocal\<close> is \<open>atom_nlocal\<close>,
    \<open>list->inum\<close> is \<open>list_inum\<close>, \<open>force->newton\<close> is \<open>force_newton\<close>).
\<close>

subsection \<open>Errors\<close>

datatype error =
    CannotOpen            \<comment> \<open>"Cannot open variance file"\<close>
  | BetaSizeMismatch      \<comment> \<open>"Beta size doesn't match the number of descriptors."\<close>
  | NullToken             \<comment> \<open>\<open>atof(NULL)\<close>: \<open>strtok\<close> found no token on the line\<close>
  | UninitialisedLine     \<comment> \<open>\<open>strtok\<close> on a line buffer that was never filled\<close>
  | HeapOverflow nat      \<comment> \<open>write to \<open>list[i]\<close> with \<open>i\<close> past the allocated size\<close>
  | OutOfBoundsRead nat   \<comment> \<open>read of \<open>beta[i]\<close> with \<open>i\<close> past the allocated size\<close>
  | NegativeMatrixSize    \<comment> \<open>\<open>Eigen::MatrixXd::Zero\<close> with a negative dimension\<close>

subsection \<open>Reading lines and tokens\<close>

definition MAXLINE :: nat where
  "MAXLINE = 1024"

text \<open>\<open>fgets(line, size, fptr)\<close>: at most \<open>size - 1\<close> characters, up to and including the
  first newline. At end of file nothing is read, the buffer keeps its content and the
  result is \<open>NULL\<close> (here \<open>None\<close>). The stream is the string of characters still to read.\<close>

fun fgets_take :: "nat \<Rightarrow> string \<Rightarrow> string \<times> string" where
  "fgets_take 0 cs = ([], cs)"
| "fgets_take (Suc k) [] = ([], [])"
| "fgets_take (Suc k) (c # cs) =
     (if c = CHR 0x0A then ([c], cs)
      else (case fgets_take k cs of (l, r) \<Rightarrow> (c # l, r)))"

definition fgets :: "nat \<Rightarrow> string \<Rightarrow> (string \<times> string) option" where
  "fgets sz fptr = (if fptr = [] then None else Some (fgets_take (sz - 1) fptr))"

text \<open>The delimiters of \<open>strtok(line, " \t\n\r\f")\<close>.\<close>

definition is_delim :: "char \<Rightarrow> bool" where
  "is_delim c = (c = CHR 0x20 \<or> c = CHR 0x09 \<or> c = CHR 0x0A \<or> c = CHR 0x0D \<or> c = CHR 0x0C)"

text \<open>A line buffer is read as a C string: it ends at the first NUL character.\<close>

definition c_str :: "string \<Rightarrow> string" where
  "c_str cs = takeWhile (\<lambda>c. c \<noteq> CHR 0x00) cs"

text \<open>All the tokens that \<open>strtok(line, ...)\<close> followed by repeated \<open>strtok(NULL, ...)\<close>
  returns, in order, until it returns \<open>NULL\<close>.\<close>

function strtok_all :: "string \<Rightarrow> string list" where
  "strtok_all cs =
     (let cs' = dropWhile is_delim cs
      in if cs' = [] then []
         else takeWhile (\<lambda>c. \<not> is_delim c) cs' # strtok_all (dropWhile (\<lambda>c. \<not> is_delim c) cs'))"
  by pat_completeness auto
termination
proof (relation "measure length", goal_cases)
  case 1
  show ?case by simp
next
  case (2 cs cs')
  then have ne: "cs' \<noteq> []" and eq: "cs' = dropWhile is_delim cs" by simp_all
  from ne eq have "\<not> is_delim (hd cs')"
    by (metis hd_dropWhile)
  with ne have "length (dropWhile (\<lambda>c. \<not> is_delim c) cs') < length cs'"
    by (cases cs') (simp_all add: less_Suc_eq_le length_dropWhile_le)
  also have "length cs' \<le> length cs"
    by (simp add: eq length_dropWhile_le)
  finally show ?case by simp
qed

declare strtok_all.simps [simp del]

subsection \<open>grab\<close>

text \<open>The inner part of one round of \<open>grab\<close>: every token of the line is converted and
  stored, \<open>list[i++] = atof(ptr)\<close>, the first one unconditionally and the others while
  \<open>strtok\<close> returns one. No store compares \<open>i\<close> with \<open>n\<close>. A store at an index outside the
  allocated array is reported as \<open>HeapOverflow\<close>.\<close>

fun store_tokens :: "(string \<Rightarrow> real) \<Rightarrow> string list \<Rightarrow> nat \<Rightarrow> real list \<Rightarrow> error + (nat \<times> real list)" where
  "store_tokens atof [] i list = Inr (i, list)"
| "store_tokens atof (t # ts) i list =
     (if i < length list then store_tokens atof ts (Suc i) (list[i := atof t])
      else Inl (HeapOverflow i))"

lemma store_tokens_index:
  "store_tokens atof ts i list = Inr (i', list') \<Longrightarrow> i' = i + length ts"
proof (induction ts arbitrary: i list)
  case Nil
  then show ?case by simp
next
  case (Cons t ts)
  from Cons.prems have "store_tokens atof ts (Suc i) (list[i := atof t]) = Inr (i', list')"
    by (simp split: if_splits)
  then have "i' = Suc i + length ts" by (rule Cons.IH)
  then show ?case by simp
qed

text \<open>The loop \<open>while (i < n)\<close> of \<open>grab\<close>. The loop state is the stream, the local line
  buffer (\<open>None\<close> while it is uninitialised), the index \<open>i\<close> and the array. \<open>fgets\<close> is not
  checked: at end of file the buffer keeps what \<open>strtok\<close> left in it, which as a C string
  is the leading delimiters and the first token of the last line read.\<close>

function grab_loop ::
  "(string \<Rightarrow> real) \<Rightarrow> int \<Rightarrow> string \<Rightarrow> string option \<Rightarrow> nat \<Rightarrow> real list \<Rightarrow> error + (string \<times> real list)" where
  "grab_loop atof n fptr line i list =
     (if int i < n then
        (let (line', fptr') = (case fgets MAXLINE fptr of
                                 None \<Rightarrow> (line, fptr)
                               | Some (l, r) \<Rightarrow> (Some l, r))
         in case line' of
              None \<Rightarrow> Inl UninitialisedLine
            | Some l \<Rightarrow>
               (case strtok_all (c_str l) of
                  [] \<Rightarrow> Inl NullToken
                | t # ts \<Rightarrow>
                   (case store_tokens atof (t # ts) i list of
                      Inl e \<Rightarrow> Inl e
                    | Inr (i', list') \<Rightarrow>
                        grab_loop atof n fptr' (Some (takeWhile is_delim (c_str l) @ t)) i' list')))
      else Inr (fptr, list))"
  by pat_completeness auto
termination
proof (relation "measure (\<lambda>(atof, n, fptr, line, i, list). nat (n - int i))", goal_cases)
  case 1
  show ?case by simp
next
  case 2
  then show ?case
    by (auto simp del: store_tokens.simps dest!: store_tokens_index)
qed

declare grab_loop.simps [simp del]

definition grab :: "(string \<Rightarrow> real) \<Rightarrow> string \<Rightarrow> int \<Rightarrow> real list \<Rightarrow> error + (string \<times> real list)" where
  "grab atof fptr n list = grab_loop atof n fptr None 0 list"

subsection \<open>The object\<close>

datatype basis = chebyshev

datatype cutoff_fn = quadratic_cutoff | cos_cutoff

text \<open>An \<open>Eigen::MatrixXd\<close>: its two dimensions and its coefficients.\<close>

record MatrixXd =
  rows :: nat
  cols :: nat
  coeff :: "nat \<Rightarrow> nat \<Rightarrow> real"

definition Zero :: "nat \<Rightarrow> nat \<Rightarrow> MatrixXd" where
  "Zero r c = \<lparr>rows = r, cols = c, coeff = (\<lambda>i j. 0)\<rparr>"

text \<open>The assignment \<open>m(i, j) = v\<close>.\<close>

definition set_coeff :: "MatrixXd \<Rightarrow> nat \<Rightarrow> nat \<Rightarrow> real \<Rightarrow> MatrixXd" where
  "set_coeff m i j v = m\<lparr>coeff := (coeff m)(i := (coeff m i)(j := v))\<rparr>"

text \<open>The members of \<open>ComputeFlareStdAtom\<close> that the functions below read or write.
  A function pointer that was never assigned is \<open>None\<close>.\<close>

record ComputeFlareStdAtom =
  n_species :: int
  n_max :: int
  l_max :: int
  beta_size :: int
  cutoff :: real
  n_descriptors :: int
  basis_function :: "basis option"
  radial_hyps :: "real list"
  cutoff_function :: "cutoff_fn option"
  beta :: "real list"
  beta_matrices :: "MatrixXd list"
  peratom_flag :: int
  size_peratom_cols :: int
  timeflag :: int
  comm_reverse :: int
  nmax :: nat
  stds :: "nat \<Rightarrow> nat \<Rightarrow> real"
  desc_derv :: "nat \<Rightarrow> nat \<Rightarrow> real"

subsection \<open>read\_file\<close>

text \<open>What the five \<open>fgets\<close>/\<open>sscanf\<close> pairs at the top of \<open>read_file\<close> deliver: the token of
  line 2, the four integers of line 3, the token of line 4 and the number of line 5.\<close>

record file_header =
  radial_string :: string
  scan_n_species :: int
  scan_n_max :: int
  scan_l_max :: int
  scan_beta_size :: int
  cutoff_string :: string
  scan_cutoff :: real

text \<open>The \<open>/\<close> of C++ on \<open>int\<close> truncates towards zero.\<close>

definition cdiv :: "int \<Rightarrow> int \<Rightarrow> int" where
  "cdiv a b = sgn a * sgn b * (\<bar>a\<bar> div \<bar>b\<bar>)"

text \<open>The result of \<open>+\<close> and \<open>*\<close> on \<open>int\<close> as stored in 32 bits: the value between \<open>-2^31\<close>
  and \<open>2^31 - 1\<close> that differs from the exact result by a multiple of \<open>2^32\<close>.\<close>

definition wrap32 :: "int \<Rightarrow> int" where
  "wrap32 x = (x + 2147483648) mod 4294967296 - 2147483648"

text \<open>The body of the two inner loops of "Fill in the beta matrix" for one pair \<open>(i, j)\<close>:
  the state is the matrix under construction and \<open>beta_count\<close>.\<close>

fun fill_entry :: "real list \<Rightarrow> nat \<Rightarrow> nat \<Rightarrow> MatrixXd \<times> nat \<Rightarrow> MatrixXd \<times> nat" where
  "fill_entry b i j (beta_matrix, beta_count) =
     ((if i = j then set_coeff beta_matrix i j (b ! beta_count)
       else if i \<noteq> j then
         (let beta_val = b ! beta_count / 2
          in set_coeff (set_coeff beta_matrix i j beta_val) j i beta_val)
       else beta_matrix),
      beta_count + 1)"

definition fill_row :: "real list \<Rightarrow> nat \<Rightarrow> nat \<Rightarrow> MatrixXd \<times> nat \<Rightarrow> MatrixXd \<times> nat" where
  "fill_row b D i = fold (\<lambda>j. fill_entry b i j) [i..<D]"

definition fill_matrix :: "real list \<Rightarrow> nat \<Rightarrow> MatrixXd \<times> nat \<Rightarrow> MatrixXd \<times> nat" where
  "fill_matrix b D = fold (\<lambda>i. fill_row b D i) [0..<D]"

text \<open>The loop over the species \<open>k\<close>: a fresh zero matrix is filled and pushed back; the
  counter \<open>beta_count\<close> runs on from one species to the next.\<close>

fun fill_species :: "real list \<Rightarrow> nat \<Rightarrow> nat \<Rightarrow> MatrixXd list \<times> nat \<Rightarrow> MatrixXd list \<times> nat" where
  "fill_species b D k (matrices, beta_count) =
     (case fill_matrix b D (Zero D D, beta_count) of
        (beta_matrix, beta_count') \<Rightarrow> (matrices @ [beta_matrix], beta_count'))"

definition fill_beta_matrices :: "ComputeFlareStdAtom \<Rightarrow> ComputeFlareStdAtom" where
  "fill_beta_matrices s =
     s\<lparr>beta_matrices :=
         fst (fold (fill_species (beta s) (nat (n_descriptors s)))
                   [0..<nat (n_species s)] (beta_matrices s, 0))\<rparr>"

text \<open>\<open>read_file\<close> on the reading process. \<open>fptr\<close> is the result of \<open>open_potential\<close>
  (\<open>None\<close> for \<open>NULL\<close>), positioned after the five header lines; \<open>hdr\<close> is what those lines
  delivered; \<open>atof\<close> is the conversion of the C library; \<open>junk\<close> is the content of the
  memory that \<open>memory->create\<close> returns. The broadcasts copy the values to the other
  processes and change nothing on this one.

  The fill loops read \<open>beta[0], beta[1], \<dots>\<close> in this order, \<open>D (D + 1) / 2\<close> values for
  each of the \<open>n_species\<close> matrices of dimension \<open>D\<close>, and compare no index with the size of
  the array. When the array is shorter than that, the first read past its end is reported
  as \<open>OutOfBoundsRead\<close>, before the loops are entered.\<close>

definition read_file ::
  "(string \<Rightarrow> real) \<Rightarrow> (nat \<Rightarrow> real) \<Rightarrow> string option \<Rightarrow> file_header \<Rightarrow>
   ComputeFlareStdAtom \<Rightarrow> error + ComputeFlareStdAtom" where
  "read_file atof junk fptr hdr s =
     (case fptr of
        None \<Rightarrow> Inl CannotOpen
      | Some tail \<Rightarrow>
         (let s1 = s\<lparr>n_species := scan_n_species hdr, n_max := scan_n_max hdr,
                     l_max := scan_l_max hdr, beta_size := scan_beta_size hdr,
                     cutoff := scan_cutoff hdr\<rparr>;
              n_radial = wrap32 (n_max s1 * n_species s1);
              s2 = s1\<lparr>n_descriptors :=
                        wrap32 (cdiv (wrap32 (n_radial * wrap32 (n_radial + 1))) 2
                                  * wrap32 (l_max s1 + 1))\<rparr>;
              beta_check = cdiv (wrap32 (n_descriptors s2 * wrap32 (n_descriptors s2 + 1))) 2
          in if beta_check \<noteq> beta_size s2 then Inl BetaSizeMismatch
             else
               (let s3 = (if radial_string hdr = ''chebyshev''
                          then s2\<lparr>basis_function := Some chebyshev,
                                   radial_hyps := [0, cutoff s2]\<rparr>
                          else s2);
                    s4 = (if cutoff_string hdr = ''quadratic''
                          then s3\<lparr>cutoff_function := Some quadratic_cutoff\<rparr>
                          else if cutoff_string hdr = ''cosine''
                          then s3\<lparr>cutoff_function := Some cos_cutoff\<rparr>
                          else s3);
                    n = wrap32 (beta_size s4 * n_species s4)
                in case grab atof tail n (map junk [0..<nat n]) of
                     Inl e \<Rightarrow> Inl e
                   | Inr (rest, b) \<Rightarrow>
                      (let s5 = s4\<lparr>beta := b\<rparr>;
                           D = nat (n_descriptors s5)
                       in if 0 < n_species s5 \<and> n_descriptors s5 < 0
                          then Inl NegativeMatrixSize
                          else if length b < nat (n_species s5) * (D * (D + 1) div 2)
                          then Inl (OutOfBoundsRead (length b))
                          else Inr (fill_beta_matrices s5)))))"

subsection \<open>The constructor\<close>

text \<open>The assignments of the constructor to the flags the host reads. \<open>comm_reverse\<close> is the
  number of values per atom that the host reserves in the buffer of a reverse
  communication.\<close>

definition constructor_flags :: "ComputeFlareStdAtom \<Rightarrow> ComputeFlareStdAtom" where
  "constructor_flags s =
     s\<lparr>peratom_flag := 1, size_peratom_cols := 0, timeflag := 1, comm_reverse := 1\<rparr>"

subsection \<open>compute\_peratom\<close>

text \<open>What the host hands to one call of \<open>compute_peratom\<close>: the atom arrays, the
  neighbour list, and two things the code takes from outside this file: the content of
  newly created memory, and \<open>B2_env_dervs\<close>, the derivative matrix that the descriptor
  library (\<open>single_bond\<close> followed by \<open>B2_descriptor\<close>) returns for the environment of atom
  \<open>i\<close> with \<open>n_inner\<close> neighbours inside the cutoff.\<close>

record host =
  atom_nmax :: nat
  atom_x :: "nat \<Rightarrow> nat \<Rightarrow> real"
  atom_type :: "nat \<Rightarrow> int"
  atom_nlocal :: nat
  atom_nghost :: nat
  force_newton :: bool
  list_inum :: nat
  list_ilist :: "nat \<Rightarrow> nat"
  list_numneigh :: "nat \<Rightarrow> nat"
  list_firstneigh :: "nat \<Rightarrow> nat \<Rightarrow> nat"
  B2_env_dervs :: "nat \<Rightarrow> nat \<Rightarrow> nat \<Rightarrow> nat \<Rightarrow> real"
  created_stds :: "nat \<Rightarrow> nat \<Rightarrow> real"
  created_desc_derv :: "nat \<Rightarrow> nat \<Rightarrow> real"

text \<open>The assignment \<open>a[r][c] = v\<close> to a two-dimensional array.\<close>

definition set2 :: "(nat \<Rightarrow> nat \<Rightarrow> real) \<Rightarrow> nat \<Rightarrow> nat \<Rightarrow> real \<Rightarrow> (nat \<Rightarrow> nat \<Rightarrow> real)" where
  "set2 a r c v = a(r := (a r)(c := v))"

text \<open>The reallocation at the top: when the host's \<open>nmax\<close> has grown, both arrays are
  destroyed and created anew, with whatever the new memory holds.\<close>

definition grow :: "host \<Rightarrow> ComputeFlareStdAtom \<Rightarrow> ComputeFlareStdAtom" where
  "grow h s =
     (if atom_nmax h > nmax s
      then s\<lparr>nmax := atom_nmax h, stds := created_stds h, desc_derv := created_desc_derv h\<rparr>
      else s)"

definition ntotal :: "host \<Rightarrow> nat" where
  "ntotal h = (if force_newton h then atom_nlocal h + atom_nghost h else atom_nlocal h)"

text \<open>The first loop, \<open>for (ii = 0; ii < ntotal; ii++) { i = ilist[ii]; ... }\<close>. Its body
  for one atom \<open>i\<close> works on the pair of arrays \<open>(stds, desc_derv)\<close>; \<open>zero_comp\<close> is the
  body of the loop over \<open>comp\<close>.\<close>

fun zero_comp ::
  "nat \<Rightarrow> nat \<Rightarrow> nat \<Rightarrow> (nat \<Rightarrow> nat \<Rightarrow> real) \<times> (nat \<Rightarrow> nat \<Rightarrow> real) \<Rightarrow> (nat \<Rightarrow> nat \<Rightarrow> real) \<times> (nat \<Rightarrow> nat \<Rightarrow> real)" where
  "zero_comp D i cmp (st, dd) =
     (set2 st i cmp 0, fold (\<lambda>nl dd'. set2 dd' (i * 3 + cmp) nl 0) [0..<D] dd)"

definition zero_atom ::
  "nat \<Rightarrow> nat \<Rightarrow> (nat \<Rightarrow> nat \<Rightarrow> real) \<times> (nat \<Rightarrow> nat \<Rightarrow> real) \<Rightarrow> (nat \<Rightarrow> nat \<Rightarrow> real) \<times> (nat \<Rightarrow> nat \<Rightarrow> real)" where
  "zero_atom D i = fold (zero_comp D i) [0..<3]"

definition reset :: "host \<Rightarrow> ComputeFlareStdAtom \<Rightarrow> ComputeFlareStdAtom" where
  "reset h s =
     (case fold (\<lambda>ii. zero_atom (nat (n_descriptors s)) (list_ilist h ii))
                [0..<ntotal h] (stds s, desc_derv s) of
        (st, dd) \<Rightarrow> s\<lparr>stds := st, desc_derv := dd\<rparr>)"

text \<open>"Count the atoms inside the cutoff."\<close>

definition count_step :: "host \<Rightarrow> real \<Rightarrow> nat \<Rightarrow> nat \<Rightarrow> nat \<Rightarrow> nat" where
  "count_step h rcut i jj n_inner =
     (let j = list_firstneigh h i jj;
          delx = atom_x h j 0 - atom_x h i 0;
          dely = atom_x h j 1 - atom_x h i 1;
          delz = atom_x h j 2 - atom_x h i 2;
          rsq = delx * delx + dely * dely + delz * delz
      in if rsq < rcut * rcut then n_inner + 1 else n_inner)"

definition count_inner :: "host \<Rightarrow> real \<Rightarrow> nat \<Rightarrow> nat" where
  "count_inner h rcut i = fold (count_step h rcut i) [0..<list_numneigh h i] 0"

text \<open>The two innermost loops of the accumulation, for one neighbour \<open>j\<close> inside the cutoff:
  \<open>desc_derv[i * 3 + comp][nl] += B; desc_derv[j * 3 + comp][nl] -= B\<close>.\<close>

definition add_entry ::
  "(nat \<Rightarrow> nat \<Rightarrow> real) \<Rightarrow> nat \<Rightarrow> nat \<Rightarrow> nat \<Rightarrow> nat \<Rightarrow> nat \<Rightarrow> (nat \<Rightarrow> nat \<Rightarrow> real) \<Rightarrow> (nat \<Rightarrow> nat \<Rightarrow> real)" where
  "add_entry B i j n_count cmp nl dd =
     (let dd1 = set2 dd (i * 3 + cmp) nl (dd (i * 3 + cmp) nl + B (n_count * 3 + cmp) nl)
      in set2 dd1 (j * 3 + cmp) nl (dd1 (j * 3 + cmp) nl - B (n_count * 3 + cmp) nl))"

definition add_pair ::
  "(nat \<Rightarrow> nat \<Rightarrow> real) \<Rightarrow> nat \<Rightarrow> nat \<Rightarrow> nat \<Rightarrow> nat \<Rightarrow> (nat \<Rightarrow> nat \<Rightarrow> real) \<Rightarrow> (nat \<Rightarrow> nat \<Rightarrow> real)" where
  "add_pair B D i j n_count =
     fold (\<lambda>cmp. fold (add_entry B i j n_count cmp) [0..<D]) [0..<3]"

text \<open>The body of the second loop for one atom \<open>i\<close>: count, call the descriptor library,
  walk the neighbours again with the counter \<open>n_count\<close>. \<open>neigh_step\<close> is the body of that
  second walk for the neighbour at position \<open>jj\<close>.\<close>

fun neigh_step ::
  "host \<Rightarrow> real \<Rightarrow> nat \<Rightarrow> nat \<Rightarrow> (nat \<Rightarrow> nat \<Rightarrow> real) \<Rightarrow> nat \<Rightarrow>
   nat \<times> (nat \<Rightarrow> nat \<Rightarrow> real) \<Rightarrow> nat \<times> (nat \<Rightarrow> nat \<Rightarrow> real)" where
  "neigh_step h rcut D i B jj (n_count, dd) =
     (let j = list_firstneigh h i jj;
          delx = atom_x h i 0 - atom_x h j 0;
          dely = atom_x h i 1 - atom_x h j 1;
          delz = atom_x h i 2 - atom_x h j 2;
          rsq = delx * delx + dely * dely + delz * delz
      in if rsq < rcut * rcut
         then (n_count + 1, add_pair B D i j n_count dd)
         else (n_count, dd))"

definition accumulate_atom ::
  "host \<Rightarrow> real \<Rightarrow> nat \<Rightarrow> nat \<Rightarrow> (nat \<Rightarrow> nat \<Rightarrow> real) \<Rightarrow> (nat \<Rightarrow> nat \<Rightarrow> real)" where
  "accumulate_atom h rcut D i dd =
     (let n_inner = count_inner h rcut i;
          B = B2_env_dervs h i n_inner
      in snd (fold (neigh_step h rcut D i B) [0..<list_numneigh h i] (0, dd)))"

definition accumulate :: "host \<Rightarrow> ComputeFlareStdAtom \<Rightarrow> ComputeFlareStdAtom" where
  "accumulate h s =
     s\<lparr>desc_derv :=
         fold (\<lambda>ii. accumulate_atom h (cutoff s) (nat (n_descriptors s)) (list_ilist h ii))
              [0..<list_inum h] (desc_derv s)\<rparr>"

text \<open>The third loop. For one atom \<open>i\<close> with matrix \<open>M = beta_matrices[itype - 1]\<close>:\<close>

definition eval_entry ::
  "MatrixXd \<Rightarrow> (nat \<Rightarrow> nat \<Rightarrow> real) \<Rightarrow> nat \<Rightarrow> nat \<Rightarrow> nat \<Rightarrow> nat \<Rightarrow> (nat \<Rightarrow> nat \<Rightarrow> real) \<Rightarrow> (nat \<Rightarrow> nat \<Rightarrow> real)" where
  "eval_entry M dd i nl1 nl2 cmp st =
     (if nl1 = nl2
      then set2 st i cmp
             (st i cmp + dd (i * 3 + cmp) nl1 * coeff M nl1 nl2 * dd (i * 3 + cmp) nl2)
      else set2 st i cmp
             (st i cmp + dd (i * 3 + cmp) nl1 * coeff M nl1 nl2 * dd (i * 3 + cmp) nl2 * 2))"

definition eval_atom ::
  "MatrixXd \<Rightarrow> nat \<Rightarrow> (nat \<Rightarrow> nat \<Rightarrow> real) \<Rightarrow> nat \<Rightarrow> (nat \<Rightarrow> nat \<Rightarrow> real) \<Rightarrow> (nat \<Rightarrow> nat \<Rightarrow> real)" where
  "eval_atom M D dd i =
     fold (\<lambda>nl1. fold (\<lambda>nl2. fold (eval_entry M dd i nl1 nl2) [0..<3]) [nl1..<D]) [0..<D]"

definition eval_step ::
  "host \<Rightarrow> ComputeFlareStdAtom \<Rightarrow> nat \<Rightarrow> (nat \<Rightarrow> nat \<Rightarrow> real) \<Rightarrow> (nat \<Rightarrow> nat \<Rightarrow> real)" where
  "eval_step h s ii st =
     (let i = list_ilist h ii;
          itype = atom_type h i
      in eval_atom (beta_matrices s ! nat (itype - 1)) (nat (n_descriptors s))
           (desc_derv s) i st)"

definition evaluate :: "host \<Rightarrow> ComputeFlareStdAtom \<Rightarrow> ComputeFlareStdAtom" where
  "evaluate h s = s\<lparr>stds := fold (eval_step h s) [0..<list_inum h] (stds s)\<rparr>"

text \<open>The whole function: reallocate, zero, accumulate, evaluate. There is no other
  statement in its body; in particular it makes no call to the host's communication.\<close>

definition compute_peratom :: "host \<Rightarrow> ComputeFlareStdAtom \<Rightarrow> ComputeFlareStdAtom" where
  "compute_peratom h s = evaluate h (accumulate h (reset h (grow h s)))"

subsection \<open>pack\_reverse\_comm and unpack\_reverse\_comm\<close>

text \<open>\<open>pack_reverse_comm\<close> returns \<open>m\<close> and leaves its writes in \<open>buf\<close>.\<close>

fun pack_entry ::
  "ComputeFlareStdAtom \<Rightarrow> nat \<Rightarrow> nat \<Rightarrow> nat \<times> (nat \<Rightarrow> real) \<Rightarrow> nat \<times> (nat \<Rightarrow> real)" where
  "pack_entry s i cmp (m, buf) = (m + 1, buf(m := stds s i cmp))"

definition pack_reverse_comm ::
  "nat \<Rightarrow> nat \<Rightarrow> (nat \<Rightarrow> real) \<Rightarrow> ComputeFlareStdAtom \<Rightarrow> nat \<times> (nat \<Rightarrow> real)" where
  "pack_reverse_comm n first buf s =
     fold (\<lambda>i. fold (pack_entry s i) [0..<3]) [first..<first + n] (0, buf)"

text \<open>\<open>unpack_reverse_comm\<close>: \<open>j = list[i]; stds[j][comp] += buf[m++]\<close>.\<close>

fun unpack_entry ::
  "(nat \<Rightarrow> real) \<Rightarrow> nat \<Rightarrow> nat \<Rightarrow> nat \<times> (nat \<Rightarrow> nat \<Rightarrow> real) \<Rightarrow> nat \<times> (nat \<Rightarrow> nat \<Rightarrow> real)" where
  "unpack_entry buf j cmp (m, st) = (m + 1, set2 st j cmp (st j cmp + buf m))"

definition unpack_reverse_comm ::
  "nat \<Rightarrow> (nat \<Rightarrow> nat) \<Rightarrow> (nat \<Rightarrow> real) \<Rightarrow> ComputeFlareStdAtom \<Rightarrow> ComputeFlareStdAtom" where
  "unpack_reverse_comm n list buf s =
     s\<lparr>stds := snd (fold (\<lambda>i. fold (unpack_entry buf (list i)) [0..<3]) [0..<n] (0, stds s))\<rparr>"

section \<open>Notions used in the statements\<close>

subsection \<open>The quadratic form\<close>

text \<open>The summand of the third loop for the pair \<open>(nl1, nl2)\<close>, and the sum that the loop
  runs through: the upper triangle, each off-diagonal pair taken twice.\<close>

definition tri_term :: "(nat \<Rightarrow> real) \<Rightarrow> (nat \<Rightarrow> nat \<Rightarrow> real) \<Rightarrow> nat \<Rightarrow> nat \<Rightarrow> real" where
  "tri_term d M nl1 nl2 =
     (if nl1 = nl2 then d nl1 * M nl1 nl2 * d nl2 else d nl1 * M nl1 nl2 * d nl2 * 2)"

definition upper_form :: "(nat \<Rightarrow> real) \<Rightarrow> (nat \<Rightarrow> nat \<Rightarrow> real) \<Rightarrow> nat \<Rightarrow> real" where
  "upper_form d M D = (\<Sum>nl1<D. \<Sum>nl2 = nl1..<D. tri_term d M nl1 nl2)"

subsection \<open>The packed upper triangle\<close>

text \<open>Row \<open>i\<close> of the upper triangle of a \<open>D \<times> D\<close> matrix holds the \<open>D - i\<close> pairs
  \<open>(i, i), \<dots>, (i, D - 1)\<close>; \<open>row_start D i\<close> is the number of pairs in the rows before it.
  \<open>cell b start i j\<close> is what the fill loop stores for the pair \<open>(i, j)\<close> of a row whose
  first value is \<open>b[start]\<close>, and \<open>sym_matrix b D start\<close> is the matrix the loop builds from
  the values \<open>b[start], b[start + 1], \<dots>\<close>.\<close>

definition row_start :: "nat \<Rightarrow> nat \<Rightarrow> nat" where
  "row_start D i = (\<Sum>r<i. D - r)"

definition cell :: "real list \<Rightarrow> nat \<Rightarrow> nat \<Rightarrow> nat \<Rightarrow> real" where
  "cell b start i j = (if i = j then b ! (start + (j - i)) else b ! (start + (j - i)) / 2)"

definition sym_matrix :: "real list \<Rightarrow> nat \<Rightarrow> nat \<Rightarrow> MatrixXd" where
  "sym_matrix b D start =
     \<lparr>rows = D, cols = D,
      coeff = (\<lambda>a c. if a \<le> c \<and> c < D then cell b (start + row_start D a) a c
                      else if c \<le> a \<and> a < D then cell b (start + row_start D c) c a
                      else 0)\<rparr>"

subsection \<open>The state after the header\<close>

text \<open>Two abbreviations for the proofs: the value that \<open>read_file\<close> assigns to
  \<open>n_descriptors\<close>, and the object after the header values, the descriptor count and the
  two strategy choices have been stored.\<close>

definition descriptors_of :: "file_header \<Rightarrow> int" where
  "descriptors_of hdr =
     wrap32 (cdiv (wrap32 (wrap32 (scan_n_max hdr * scan_n_species hdr)
                            * wrap32 (wrap32 (scan_n_max hdr * scan_n_species hdr) + 1))) 2
               * wrap32 (scan_l_max hdr + 1))"

definition header_state :: "file_header \<Rightarrow> ComputeFlareStdAtom \<Rightarrow> ComputeFlareStdAtom" where
  "header_state hdr s =
     s\<lparr>n_species := scan_n_species hdr, n_max := scan_n_max hdr, l_max := scan_l_max hdr,
       beta_size := scan_beta_size hdr, cutoff := scan_cutoff hdr,
       n_descriptors := descriptors_of hdr,
       basis_function := (if radial_string hdr = ''chebyshev'' then Some chebyshev
                          else basis_function s),
       radial_hyps := (if radial_string hdr = ''chebyshev'' then [0, scan_cutoff hdr]
                       else radial_hyps s),
       cutoff_function := (if cutoff_string hdr = ''quadratic'' then Some quadratic_cutoff
                           else if cutoff_string hdr = ''cosine'' then Some cos_cutoff
                           else cutoff_function s)\<rparr>"

subsection \<open>Hyper-parameters within the range of int\<close>

text \<open>\<open>int32 x\<close>: the number \<open>x\<close> is a value of a 32-bit \<open>int\<close>. \<open>no_overflow hdr\<close>: every
  exact intermediate result of the computation of the descriptor count and of the expected
  \<open>beta_size\<close> from the header is one, so that no operation of that computation leaves the
  range.\<close>

definition int32 :: "int \<Rightarrow> bool" where
  "int32 x = (- 2147483648 \<le> x \<and> x < 2147483648)"

definition no_overflow :: "file_header \<Rightarrow> bool" where
  "no_overflow hdr =
     (let R = scan_n_max hdr * scan_n_species hdr;
          D = (R * (R + 1) div 2) * (scan_l_max hdr + 1)
      in int32 R \<and> int32 (R + 1) \<and> int32 (R * (R + 1)) \<and> int32 (scan_l_max hdr + 1)
         \<and> int32 D \<and> int32 (D + 1) \<and> int32 (D * (D + 1)))"

subsection \<open>Concrete inputs\<close>

text \<open>A conversion for the example files: a one-character token is worth its digit, any
  other token \<open>0\<close>. New memory holds zeros in the examples.\<close>

definition atof_digit :: "string \<Rightarrow> real" where
  "atof_digit t = (case t of [c] \<Rightarrow> real (of_char c - 48) | _ \<Rightarrow> 0)"

definition zero_memory :: "nat \<Rightarrow> real" where
  "zero_memory i = 0"

text \<open>The object as the constructor leaves it before \<open>coeff\<close> calls \<open>read_file\<close>. The
  constructor sets \<open>stds\<close> to \<open>NULL\<close> and assigns neither \<open>desc_derv\<close> nor \<open>nmax\<close>. The
  record has no \<open>NULL\<close>: the two array fields of \<open>fresh_object\<close> stand for arrays that do not
  exist yet, and \<open>nmax\<close> is taken as \<open>0\<close>, so that the first \<open>compute_peratom\<close> on a host with
  atoms creates both arrays before anything reads them. The statements of the claims read
  \<open>stds\<close> and \<open>desc_derv\<close> only on objects that \<open>compute_peratom\<close> has been applied to.\<close>

definition fresh_object :: ComputeFlareStdAtom where
  "fresh_object = constructor_flags
     \<lparr>n_species = 0, n_max = 0, l_max = 0, beta_size = 0, cutoff = 0, n_descriptors = 0,
      basis_function = None, radial_hyps = [], cutoff_function = None, beta = [],
      beta_matrices = [], peratom_flag = 0, size_peratom_cols = 0, timeflag = 0,
      comm_reverse = 0, nmax = 0, stds = (\<lambda>a c. 0), desc_derv = (\<lambda>r nl. 0)\<rparr>"

text \<open>The header \<open>chebyshev / 1 1 0 1 / quadratic / 2\<close>, and variants of it: another
  \<open>beta_size\<close>; the integers \<open>65536 65536 0 0\<close>, whose product \<open>n_max * n_species\<close> is
  \<open>2^32\<close>; another token for the radial basis.\<close>

definition header_1101 :: file_header where
  "header_1101 =
     \<lparr>radial_string = ''chebyshev'', scan_n_species = 1, scan_n_max = 1, scan_l_max = 0,
      scan_beta_size = 1, cutoff_string = ''quadratic'', scan_cutoff = 2\<rparr>"


definition header_wrapped :: file_header where
  "header_wrapped =
     header_1101\<lparr>scan_n_species := 65536, scan_n_max := 65536, scan_beta_size := 0\<rparr>"

definition header_unknown_basis :: file_header where
  "header_unknown_basis = header_1101\<lparr>radial_string := ''bessel''\<rparr>"

text \<open>Two ends of a file: the single line \<open>"1"\<close>, and the single line \<open>"1 2"\<close>.\<close>

definition tail_one :: string where
  "tail_one = [CHR ''1'', CHR 0x0A]"

definition tail_two :: string where
  "tail_two = [CHR ''1'', CHR 0x20, CHR ''2'', CHR 0x0A]"

text \<open>The object after loading \<open>header_1101\<close> followed by \<open>tail_one\<close>: one species, one
  descriptor, the \<open>1 \<times> 1\<close> matrix \<open>(1)\<close>, cutoff \<open>2\<close>.\<close>

definition loaded_object :: ComputeFlareStdAtom where
  "loaded_object = projr (read_file atof_digit zero_memory (Some tail_one) header_1101 fresh_object)"

text \<open>One owned atom \<open>0\<close> at the origin and one ghost atom \<open>1\<close> at distance \<open>1\<close>, Newton
  flag on. The neighbour list holds the owned atom with its single neighbour \<open>1\<close>; the
  memory of \<open>ilist\<close> behind its \<open>inum = 1\<close> entries holds zeros, as all new memory does. The
  descriptor library returns the derivative \<open>1\<close> everywhere.\<close>

definition two_atoms :: host where
  "two_atoms =
     \<lparr>atom_nmax = 2, atom_x = (\<lambda>a c. if a = 1 \<and> c = 0 then 1 else 0), atom_type = (\<lambda>a. 1),
      atom_nlocal = 1, atom_nghost = 1, force_newton = True,
      list_inum = 1, list_ilist = (\<lambda>ii. 0),
      list_numneigh = (\<lambda>i. if i = 0 then 1 else 0), list_firstneigh = (\<lambda>i jj. 1),
      B2_env_dervs = (\<lambda>i n_inner r nl. 1),
      created_stds = (\<lambda>a c. 0), created_desc_derv = (\<lambda>r nl. 0)\<rparr>"

text \<open>The same pair of atoms on a single process, which owns both: each is the only
  neighbour of the other. The descriptor library returns the derivative \<open>1\<close> for the
  environment of atom \<open>0\<close>, as above, and \<open>-1\<close> for the environment of atom \<open>1\<close>.\<close>

definition two_owned :: host where
  "two_owned =
     \<lparr>atom_nmax = 2, atom_x = (\<lambda>a c. if a = 1 \<and> c = 0 then 1 else 0), atom_type = (\<lambda>a. 1),
      atom_nlocal = 2, atom_nghost = 0, force_newton = True,
      list_inum = 2, list_ilist = (\<lambda>ii. ii),
      list_numneigh = (\<lambda>i. 1), list_firstneigh = (\<lambda>i jj. 1 - i),
      B2_env_dervs = (\<lambda>i n_inner r nl. if i = 0 then 1 else - 1),
      created_stds = (\<lambda>a c. 0), created_desc_derv = (\<lambda>r nl. 0)\<rparr>"

text \<open>The same pair on two processes. \<open>two_atoms\<close> is the process that owns the atom at
  the origin and holds the other one as ghost atom \<open>1\<close>. \<open>two_atoms_remote\<close> is the other
  process: its owned atom \<open>0\<close> is the atom at distance \<open>1\<close>, its ghost atom \<open>1\<close> is the copy
  of the atom at the origin, and the descriptor library returns \<open>-1\<close> for the environment
  of its owned atom.\<close>

definition two_atoms_remote :: host where
  "two_atoms_remote =
     \<lparr>atom_nmax = 2, atom_x = (\<lambda>a c. if a = 0 \<and> c = 0 then 1 else 0), atom_type = (\<lambda>a. 1),
      atom_nlocal = 1, atom_nghost = 1, force_newton = True,
      list_inum = 1, list_ilist = (\<lambda>ii. 0),
      list_numneigh = (\<lambda>i. if i = 0 then 1 else 0), list_firstneigh = (\<lambda>i jj. 1),
      B2_env_dervs = (\<lambda>i n_inner r nl. - 1),
      created_stds = (\<lambda>a c. 0), created_desc_derv = (\<lambda>r nl. 0)\<rparr>"

text \<open>The index list of a reverse communication that delivers the values of one ghost atom
  to the owned atom \<open>0\<close>, and a communication buffer that holds \<open>7\<close> everywhere.\<close>

definition send_list :: "nat \<Rightarrow> nat" where
  "send_list k = 0"

definition stale_buffer :: "nat \<Rightarrow> real" where
  "stale_buffer m = 7"

text \<open>A second file: one species, \<open>n_max = 1\<close>, \<open>l_max = 1\<close>, hence two descriptors and
  three stored values, given as \<open>"1 2"\<close> and \<open>"3"\<close> on two lines.\<close>

definition header_1113 :: file_header where
  "header_1113 = header_1101\<lparr>scan_l_max := 1, scan_beta_size := 3\<rparr>"

definition tail_three :: string where
  "tail_three = [CHR ''1'', CHR 0x20, CHR ''2'', CHR 0x0A, CHR ''3'', CHR 0x0A]"

definition loaded_two :: ComputeFlareStdAtom where
  "loaded_two = projr (read_file atof_digit zero_memory (Some tail_three) header_1113 fresh_object)"

subsection \<open>Lines that fgets reads whole\<close>

text \<open>A line of text as \<open>fgets\<close> delivers it in one call: it ends with its only newline and
  fits the buffer. \<open>line_tokens\<close> are the tokens \<open>grab\<close> finds on it.\<close>

definition text_line :: "string \<Rightarrow> bool" where
  "text_line l = (l \<noteq> [] \<and> last l = CHR 0x0A \<and> CHR 0x0A \<notin> set (butlast l) \<and> length l < MAXLINE)"

definition line_tokens :: "string \<Rightarrow> string list" where
  "line_tokens l = strtok_all (c_str l)"

section \<open>Auxiliary lemmas\<close>

subsection \<open>The three loops of compute\_peratom\<close>

lemma upt_0_3: "[0..<3] = [0, 1, 2]"
  by (simp add: upt_rec numeral_eq_Suc)

lemma row_arith:
  "Suc (i * 3) mod 3 = 1" "Suc (Suc (i * 3)) mod 3 = 2"
  "Suc (i * 3) div 3 = i" "Suc (Suc (i * 3)) div 3 = i"
  by presburger+

lemma row_div_mod: "c < 3 \<Longrightarrow> (a * 3 + c) div 3 = a" "c < 3 \<Longrightarrow> (a * 3 + c) mod 3 = c" for a c :: nat
  by simp_all

lemma zero_row_closed:
  "fold (\<lambda>nl dd'. set2 dd' r nl 0) [0..<D] dd = (\<lambda>r' nl. if r' = r \<and> nl < D then 0 else dd r' nl)"
  by (induction D) (auto simp: set2_def fun_eq_iff less_Suc_eq)

lemma zero_atom_closed:
  "zero_atom D i (st, dd) =
     ((\<lambda>a c. if a = i \<and> c < 3 then 0 else st a c),
      (\<lambda>r nl. if r div 3 = i \<and> nl < D then 0 else dd r nl))"
  apply (simp add: zero_atom_def upt_0_3 zero_row_closed)
  apply (rule conjI)
   apply (auto simp: set2_def fun_eq_iff row_arith)
  done

lemma zero_loop_closed:
  "fold (\<lambda>ii. zero_atom D (il ii)) [0..<n] (st, dd) =
     ((\<lambda>a c. if (\<exists>ii<n. il ii = a) \<and> c < 3 then 0 else st a c),
      (\<lambda>r nl. if (\<exists>ii<n. il ii = r div 3) \<and> nl < D then 0 else dd r nl))"
proof (induction n)
  case 0
  show ?case by simp
next
  case (Suc n)
  show ?case
    by (simp add: Suc zero_atom_closed) (auto simp: fun_eq_iff less_Suc_eq)
qed

lemma stds_reset:
  "stds (reset h s) a c =
     (if (\<exists>ii<ntotal h. list_ilist h ii = a) \<and> c < 3 then 0 else stds s a c)"
  by (simp add: reset_def zero_loop_closed)

lemma desc_derv_reset:
  "desc_derv (reset h s) r nl =
     (if (\<exists>ii<ntotal h. list_ilist h ii = r div 3) \<and> nl < nat (n_descriptors s) then 0
      else desc_derv s r nl)"
  by (simp add: reset_def zero_loop_closed)

lemma add_row_closed:
  "fold (add_entry B i j n_count c) [0..<D] dd =
   (\<lambda>r nl. dd r nl + (if r = i * 3 + c \<and> nl < D then B (n_count * 3 + c) nl else 0)
                    - (if r = j * 3 + c \<and> nl < D then B (n_count * 3 + c) nl else 0))"
  by (induction D) (auto simp: add_entry_def set2_def fun_eq_iff less_Suc_eq Let_def)

lemma add_pair_at:
  assumes "c < 3"
  shows "add_pair B D i j n_count dd (a * 3 + c) nl =
     dd (a * 3 + c) nl + (if a = i \<and> nl < D then B (n_count * 3 + c) nl else 0)
                    - (if a = j \<and> nl < D then B (n_count * 3 + c) nl else 0)"
proof -
  from assms consider "c = 0" | "c = 1" | "c = 2" by linarith
  then show ?thesis
  proof cases
    case 1 then show ?thesis
      by (simp add: add_pair_def upt_0_3 add_row_closed)
  next
    case 2 then show ?thesis
      by (simp add: add_pair_def upt_0_3 add_row_closed)
  next
    case 3 then show ?thesis
      by (simp add: add_pair_def upt_0_3 add_row_closed)
  qed
qed

lemma add_pair_sum:
  assumes "i < N" "j < N" "c < 3"
  shows "(\<Sum>a<N. add_pair B D i j n_count dd (a * 3 + c) nl) = (\<Sum>a<N. dd (a * 3 + c) nl)"
proof -
  let ?b = "if nl < D then B (n_count * 3 + c) nl else 0"
  have "(\<Sum>a<N. add_pair B D i j n_count dd (a * 3 + c) nl)
        = (\<Sum>a<N. dd (a * 3 + c) nl + (if a = i then ?b else 0) - (if a = j then ?b else 0))"
    using assms(3) by (intro sum.cong refl) (simp add: add_pair_at)
  also have "\<dots> = (\<Sum>a<N. dd (a * 3 + c) nl) + (\<Sum>a<N. if a = i then ?b else 0)
                    - (\<Sum>a<N. if a = j then ?b else 0)"
    by (simp add: sum.distrib sum_subtractf)
  also have "\<dots> = (\<Sum>a<N. dd (a * 3 + c) nl)"
    using assms(1,2) by (simp add: sum.delta)
  finally show ?thesis .
qed

lemma neigh_loop_sum:
  assumes "i < N" "\<forall>jj<n. list_firstneigh h i jj < N" "c < 3"
  shows "(\<Sum>a<N. snd (fold (neigh_step h rcut D i B) [0..<n] (k, dd)) (a * 3 + c) nl)
         = (\<Sum>a<N. dd (a * 3 + c) nl)"
  using assms(2)
proof (induction n)
  case 0
  show ?case by simp
next
  case (Suc n)
  then have IH: "(\<Sum>a<N. snd (fold (neigh_step h rcut D i B) [0..<n] (k, dd)) (a * 3 + c) nl)
         = (\<Sum>a<N. dd (a * 3 + c) nl)" and jn: "list_firstneigh h i n < N"
    by simp_all
  obtain k' dd' where st: "fold (neigh_step h rcut D i B) [0..<n] (k, dd) = (k', dd')"
    by (cases "fold (neigh_step h rcut D i B) [0..<n] (k, dd)")
  show ?case
    using IH jn assms(1,3)
    by (simp add: st Let_def add_pair_sum)
qed

lemma accumulate_atom_sum:
  assumes "i < N" "\<forall>jj<list_numneigh h i. list_firstneigh h i jj < N" "c < 3"
  shows "(\<Sum>a<N. accumulate_atom h rcut D i dd (a * 3 + c) nl) = (\<Sum>a<N. dd (a * 3 + c) nl)"
  unfolding accumulate_atom_def Let_def using assms by (rule neigh_loop_sum)

lemma accumulate_loop_sum:
  assumes "\<forall>ii<n. il ii < N \<and> (\<forall>jj<list_numneigh h (il ii). list_firstneigh h (il ii) jj < N)" "c < 3"
  shows "(\<Sum>a<N. fold (\<lambda>ii. accumulate_atom h rcut D (il ii)) [0..<n] dd (a * 3 + c) nl)
         = (\<Sum>a<N. dd (a * 3 + c) nl)"
  using assms(1)
proof (induction n)
  case 0
  show ?case by simp
next
  case (Suc n)
  then show ?case
    using assms(2) by (simp add: accumulate_atom_sum)
qed

lemma accumulate_sum:
  assumes "\<forall>ii<list_inum h. list_ilist h ii < N \<and>
             (\<forall>jj<list_numneigh h (list_ilist h ii). list_firstneigh h (list_ilist h ii) jj < N)"
      and "c < 3"
  shows "(\<Sum>a<N. desc_derv (accumulate h s) (a * 3 + c) nl) = (\<Sum>a<N. desc_derv s (a * 3 + c) nl)"
  using assms by (simp add: accumulate_def accumulate_loop_sum)

lemma eval_comp_closed:
  "fold (eval_entry M dd i nl1 nl2) [0..<3] st =
     (\<lambda>a c. st a c + (if a = i \<and> c < 3 then tri_term (dd (i * 3 + c)) (coeff M) nl1 nl2 else 0))"
  by (auto simp: upt_0_3 eval_entry_def set2_def fun_eq_iff tri_term_def)

lemma eval_inner_closed:
  "nl1 \<le> J \<Longrightarrow>
   fold (\<lambda>nl2. fold (eval_entry M dd i nl1 nl2) [0..<3]) [nl1..<J] st =
     (\<lambda>a c. st a c + (if a = i \<and> c < 3
                       then (\<Sum>nl2 = nl1..<J. tri_term (dd (i * 3 + c)) (coeff M) nl1 nl2) else 0))"
proof (induction J)
  case 0
  then show ?case by (simp add: fun_eq_iff)
next
  case (Suc J)
  show ?case
  proof (cases "nl1 = Suc J")
    case True
    then show ?thesis by (simp add: fun_eq_iff)
  next
    case False
    with Suc.prems have le: "nl1 \<le> J" by simp
    have "fold (\<lambda>nl2. fold (eval_entry M dd i nl1 nl2) [0..<3]) [nl1..<Suc J] st =
          fold (eval_entry M dd i nl1 J) [0..<3]
            (fold (\<lambda>nl2. fold (eval_entry M dd i nl1 nl2) [0..<3]) [nl1..<J] st)"
      using le by simp
    also have "\<dots> = fold (eval_entry M dd i nl1 J) [0..<3]
            (\<lambda>a c. st a c + (if a = i \<and> c < 3
                       then (\<Sum>nl2 = nl1..<J. tri_term (dd (i * 3 + c)) (coeff M) nl1 nl2) else 0))"
      by (simp only: Suc.IH [OF le])
    also have "\<dots> = (\<lambda>a c. st a c + (if a = i \<and> c < 3
                       then (\<Sum>nl2 = nl1..<Suc J. tri_term (dd (i * 3 + c)) (coeff M) nl1 nl2) else 0))"
      using le by (simp add: eval_comp_closed fun_eq_iff)
    finally show ?thesis .
  qed
qed

lemma eval_atom_closed:
  "eval_atom M D dd i st =
     (\<lambda>a c. st a c + (if a = i \<and> c < 3
                       then (\<Sum>nl1<D. \<Sum>nl2 = nl1..<D. tri_term (dd (i * 3 + c)) (coeff M) nl1 nl2)
                       else 0))"
proof -
  have "I \<le> D \<Longrightarrow>
        fold (\<lambda>nl1. fold (\<lambda>nl2. fold (eval_entry M dd i nl1 nl2) [0..<3]) [nl1..<D]) [0..<I] st =
        (\<lambda>a c. st a c + (if a = i \<and> c < 3
                       then (\<Sum>nl1<I. \<Sum>nl2 = nl1..<D. tri_term (dd (i * 3 + c)) (coeff M) nl1 nl2)
                       else 0))" for I
  proof (induction I)
    case 0
    show ?case by (simp add: fun_eq_iff)
  next
    case (Suc I)
    then have le: "I \<le> D" by simp
    show ?case
      using le by (simp add: Suc.IH [OF le] eval_inner_closed fun_eq_iff)
  qed
  from this [of D] show ?thesis by (simp add: eval_atom_def)
qed

lemma eval_step_closed:
  "eval_step h s ii st =
     (\<lambda>a c. st a c + (if list_ilist h ii = a \<and> c < 3
                 then upper_form (desc_derv s (a * 3 + c))
                        (coeff (beta_matrices s ! nat (atom_type h a - 1))) (nat (n_descriptors s))
                 else 0))"
  by (auto simp: eval_step_def Let_def eval_atom_closed upper_form_def fun_eq_iff)

lemma eval_loop_closed:
  "fold (eval_step h s) [0..<n] st =
     (\<lambda>a c. st a c + (\<Sum>ii<n. if list_ilist h ii = a \<and> c < 3
                 then upper_form (desc_derv s (a * 3 + c))
                        (coeff (beta_matrices s ! nat (atom_type h a - 1))) (nat (n_descriptors s))
                 else 0))"
proof (induction n)
  case 0
  show ?case by (simp add: fun_eq_iff)
next
  case (Suc n)
  have "fold (eval_step h s) [0..<Suc n] st = eval_step h s n (fold (eval_step h s) [0..<n] st)"
    by simp
  also have "\<dots> = eval_step h s n
     (\<lambda>a c. st a c + (\<Sum>ii<n. if list_ilist h ii = a \<and> c < 3
                 then upper_form (desc_derv s (a * 3 + c))
                        (coeff (beta_matrices s ! nat (atom_type h a - 1))) (nat (n_descriptors s))
                 else 0))"
    by (simp only: Suc)
  also have "\<dots> = (\<lambda>a c. st a c + (\<Sum>ii<Suc n. if list_ilist h ii = a \<and> c < 3
                 then upper_form (desc_derv s (a * 3 + c))
                        (coeff (beta_matrices s ! nat (atom_type h a - 1))) (nat (n_descriptors s))
                 else 0))"
    by (simp add: eval_step_closed fun_eq_iff)
  finally show ?case .
qed

lemma sum_inj_pick:
  assumes "inj_on il {..<n::nat}" "ii < n"
  shows "(\<Sum>k<n. if il k = il ii then f k else (0::real)) = f ii"
proof -
  have "(\<Sum>k<n. if il k = il ii then f k else 0) = (\<Sum>k<n. if k = ii then f k else 0)"
    by (intro sum.cong refl) (use assms in \<open>auto dest: inj_onD\<close>)
  also have "\<dots> = f ii"
    using assms(2) by (simp add: sum.delta)
  finally show ?thesis .
qed

lemma stds_evaluate:
  assumes "inj_on (list_ilist h) {..<list_inum h}" "ii < list_inum h" "c < 3"
  shows "stds (evaluate h s) (list_ilist h ii) c =
           stds s (list_ilist h ii) c
           + upper_form (desc_derv s (list_ilist h ii * 3 + c))
               (coeff (beta_matrices s ! nat (atom_type h (list_ilist h ii) - 1)))
               (nat (n_descriptors s))"
  using assms(3) sum_inj_pick [OF assms(1,2)]
  by (simp add: evaluate_def eval_loop_closed)

subsection \<open>Filling the matrices, and grab\<close>

lemma fill_row_closed:
  "i \<le> J \<Longrightarrow>
   fold (fill_entry b i) [i..<J] (m, bc) =
     (m\<lparr>coeff := (\<lambda>a c. if a = i \<and> i \<le> c \<and> c < J then cell b bc i c
                        else if c = i \<and> i \<le> a \<and> a < J then cell b bc i a
                        else coeff m a c)\<rparr>,
      bc + (J - i))"
proof (induction J)
  case 0
  then have "(\<lambda>a c. if a = i \<and> i \<le> c \<and> c < 0 then cell b bc i c
                        else if c = i \<and> i \<le> a \<and> a < 0 then cell b bc i a
                        else coeff m a c) = coeff m"
    by (auto simp: fun_eq_iff)
  with 0 show ?case by simp
next
  case (Suc J)
  show ?case
  proof (cases "i = Suc J")
    case True
    then have "(\<lambda>a c. if a = i \<and> i \<le> c \<and> c < Suc J then cell b bc i c
                        else if c = i \<and> i \<le> a \<and> a < Suc J then cell b bc i a
                        else coeff m a c) = coeff m"
      by (auto simp: fun_eq_iff)
    with True show ?thesis by simp
  next
    case False
    with Suc.prems have le: "i \<le> J" by simp
    have "fold (fill_entry b i) [i..<Suc J] (m, bc) =
          fill_entry b i J (fold (fill_entry b i) [i..<J] (m, bc))"
      using le by simp
    also have "\<dots> = fill_entry b i J
       (m\<lparr>coeff := (\<lambda>a c. if a = i \<and> i \<le> c \<and> c < J then cell b bc i c
                        else if c = i \<and> i \<le> a \<and> a < J then cell b bc i a
                        else coeff m a c)\<rparr>,
      bc + (J - i))"
      by (simp only: Suc.IH [OF le])
    also have "\<dots> = (m\<lparr>coeff := (\<lambda>a c. if a = i \<and> i \<le> c \<and> c < Suc J then cell b bc i c
                        else if c = i \<and> i \<le> a \<and> a < Suc J then cell b bc i a
                        else coeff m a c)\<rparr>,
      bc + (Suc J - i))"
      using le by (auto simp: set_coeff_def cell_def fun_eq_iff Let_def Suc_diff_le)
    finally show ?thesis .
  qed
qed

lemma row_start_Suc: "i < D \<Longrightarrow> row_start D (Suc i) = row_start D i + (D - i)"
  by (simp add: row_start_def)

lemma fill_matrix_closed_aux:
  "I \<le> D \<Longrightarrow>
   fold (fill_row b D) [0..<I] (m, bc) =
     (m\<lparr>coeff := (\<lambda>a c. if a \<le> c \<and> a < I \<and> c < D then cell b (bc + row_start D a) a c
                        else if c \<le> a \<and> c < I \<and> a < D then cell b (bc + row_start D c) c a
                        else coeff m a c)\<rparr>,
      bc + row_start D I)"
proof (induction I)
  case 0
  have "(\<lambda>a c. if a \<le> c \<and> a < 0 \<and> c < D then cell b (bc + row_start D a) a c
                        else if c \<le> a \<and> c < 0 \<and> a < D then cell b (bc + row_start D c) c a
                        else coeff m a c) = coeff m"
    by (auto simp: fun_eq_iff)
  then show ?case by (simp add: row_start_def)
next
  case (Suc I)
  then have le: "I \<le> D" and lt: "I < D" by simp_all
  have "fold (fill_row b D) [0..<Suc I] (m, bc) =
        fill_row b D I (fold (fill_row b D) [0..<I] (m, bc))"
    by simp
  also have "\<dots> = fill_row b D I
     (m\<lparr>coeff := (\<lambda>a c. if a \<le> c \<and> a < I \<and> c < D then cell b (bc + row_start D a) a c
                        else if c \<le> a \<and> c < I \<and> a < D then cell b (bc + row_start D c) c a
                        else coeff m a c)\<rparr>,
      bc + row_start D I)"
    by (simp only: Suc.IH [OF le])
  also have "\<dots> =
     (m\<lparr>coeff := (\<lambda>a c. if a \<le> c \<and> a < Suc I \<and> c < D then cell b (bc + row_start D a) a c
                        else if c \<le> a \<and> c < Suc I \<and> a < D then cell b (bc + row_start D c) c a
                        else coeff m a c)\<rparr>,
      bc + row_start D (Suc I))"
    using lt
    by (auto simp: fill_row_def fill_row_closed row_start_Suc fun_eq_iff less_Suc_eq)
  finally show ?case .
qed

lemma fill_matrix_Zero:
  "fill_matrix b D (Zero D D, bc) = (sym_matrix b D bc, bc + row_start D D)"
  unfolding fill_matrix_def
  by (subst fill_matrix_closed_aux) (auto simp: Zero_def sym_matrix_def fun_eq_iff)

lemma fill_species_closed:
  "fold (fill_species b D) [0..<K] (ms, 0) =
     (ms @ map (\<lambda>k. sym_matrix b D (k * row_start D D)) [0..<K], K * row_start D D)"
proof (induction K)
  case 0
  show ?case by simp
next
  case (Suc K)
  show ?case
    by (simp add: Suc fill_matrix_Zero)
qed

lemma beta_matrices_fill:
  "beta_matrices (fill_beta_matrices s) =
     beta_matrices s @ map (\<lambda>k. sym_matrix (beta s) (nat (n_descriptors s))
                               (k * row_start (nat (n_descriptors s)) (nat (n_descriptors s))))
                           [0..<nat (n_species s)]"
  by (simp add: fill_beta_matrices_def fill_species_closed)

lemma row_start_total: "2 * row_start D D = D * (D + 1)"
proof -
  have "I \<le> D \<Longrightarrow> 2 * row_start D I = I * (2 * D + 1 - I)" for I
  proof (induction I)
    case 0
    show ?case by (simp add: row_start_def)
  next
    case (Suc I)
    then have lt: "I < D" and IH: "2 * row_start D I = I * (2 * D + 1 - I)" by simp_all
    from less_imp_Suc_add [OF lt] obtain e where D: "D = I + Suc e" by auto
    have a: "2 * D + 1 - I = I + 2 * e + 3" and b: "D - I = Suc e"
      and c: "2 * D + 1 - Suc I = I + 2 * e + 2"
      by (simp_all add: D)
    have "2 * row_start D (Suc I) = I * (2 * D + 1 - I) + 2 * (D - I)"
      using lt IH by (simp add: row_start_Suc)
    also have "\<dots> = I * (I + 2 * e + 3) + 2 * Suc e"
      by (simp only: a b)
    also have "\<dots> = Suc I * (I + 2 * e + 2)"
      by (simp add: algebra_simps)
    also have "\<dots> = Suc I * (2 * D + 1 - Suc I)"
      by (simp only: c)
    finally show ?case .
  qed
  from this [of D] show ?thesis by simp
qed

lemma row_start_mono: "i \<le> j \<Longrightarrow> j \<le> D \<Longrightarrow> row_start D i \<le> row_start D j"
  unfolding row_start_def by (intro sum_mono2) auto

lemma cell_index_bound:
  assumes "i \<le> j" "j < D"
  shows "row_start D i + (j - i) < row_start D D"
proof -
  have "row_start D i + (j - i) < row_start D i + (D - i)"
    using assms by simp
  also have "\<dots> = row_start D (Suc i)"
    using assms by (simp add: row_start_Suc)
  also have "\<dots> \<le> row_start D D"
    using assms by (intro row_start_mono) simp_all
  finally show ?thesis .
qed

lemma store_tokens_length:
  "store_tokens atof ts i list = Inr (i', list') \<Longrightarrow> length list' = length list"
proof (induction ts arbitrary: i list)
  case Nil
  then show ?case by simp
next
  case (Cons t ts)
  from Cons.prems have "store_tokens atof ts (Suc i) (list[i := atof t]) = Inr (i', list')"
    by (simp split: if_splits)
  then have "length list' = length (list[i := atof t])" by (rule Cons.IH)
  then show ?case by simp
qed

lemma grab_loop_step:
  assumes "int i < n"
  shows "grab_loop atof n fptr line i list =
     (case (case fgets MAXLINE fptr of None \<Rightarrow> (line, fptr) | Some (l, r) \<Rightarrow> (Some l, r)) of
        (line', fptr') \<Rightarrow>
          (case line' of
              None \<Rightarrow> Inl UninitialisedLine
            | Some l \<Rightarrow>
               (case strtok_all (c_str l) of
                  [] \<Rightarrow> Inl NullToken
                | t # ts \<Rightarrow>
                   (case store_tokens atof (t # ts) i list of
                      Inl e \<Rightarrow> Inl e
                    | Inr (i', list') \<Rightarrow>
                        grab_loop atof n fptr' (Some (takeWhile is_delim (c_str l) @ t)) i' list'))))"
  by (subst grab_loop.simps) (simp only: assms if_True Let_def)

lemma grab_loop_done:
  "\<not> int i < n \<Longrightarrow> grab_loop atof n fptr line i list = Inr (fptr, list)"
  by (subst grab_loop.simps) (simp only: if_False)

lemma grab_loop_length:
  "grab_loop atof n fptr line i list = Inr (rest, list') \<Longrightarrow> length list' = length list"
proof (induction atof n fptr line i list rule: grab_loop.induct)
  case (1 atof n fptr line i list)
  show ?case
  proof (cases "int i < n")
    case False
    with "1.prems" show ?thesis by (simp add: grab_loop_done)
  next
    case True
    obtain line' fptr' where lf: "(case fgets MAXLINE fptr of None \<Rightarrow> (line, fptr)
                               | Some (l, r) \<Rightarrow> (Some l, r)) = (line', fptr')"
      by (cases "case fgets MAXLINE fptr of None \<Rightarrow> (line, fptr) | Some (l, r) \<Rightarrow> (Some l, r)")
    from "1.prems" have eq: "(case line' of
              None \<Rightarrow> Inl UninitialisedLine
            | Some l \<Rightarrow>
               (case strtok_all (c_str l) of
                  [] \<Rightarrow> Inl NullToken
                | t # ts \<Rightarrow>
                   (case store_tokens atof (t # ts) i list of
                      Inl e \<Rightarrow> Inl e
                    | Inr (i', list') \<Rightarrow>
                        grab_loop atof n fptr' (Some (takeWhile is_delim (c_str l) @ t)) i' list')))
          = Inr (rest, list')"
      by (simp only: grab_loop_step [OF True] lf prod.case)
    from eq obtain l where l: "line' = Some l"
      by (cases line') simp_all
    from eq l obtain t ts where tok: "strtok_all (c_str l) = t # ts"
      by (cases "strtok_all (c_str l)") simp_all
    from eq l tok obtain i1 list1 where st: "store_tokens atof (t # ts) i list = Inr (i1, list1)"
      by (cases "store_tokens atof (t # ts) i list") (auto simp del: store_tokens.simps)
    from eq l tok st have rec:
      "grab_loop atof n fptr' (Some (takeWhile is_delim (c_str l) @ t)) i1 list1 = Inr (rest, list')"
      by (simp del: store_tokens.simps)
    have "length list' = length list1"
      using "1.IH" [OF True lf [symmetric] refl l tok st refl rec] .
    with store_tokens_length [OF st] show ?thesis by simp
  qed
qed

lemma grab_length:
  "grab atof fptr n list = Inr (rest, list') \<Longrightarrow> length list' = length list"
  unfolding grab_def by (rule grab_loop_length)

subsection \<open>Packing and unpacking\<close>

lemma pack_atom_closed:
  "fold (pack_entry s i) [0..<3] (m, buf) =
     (m + 3, (\<lambda>q. if m \<le> q \<and> q < m + 3 then stds s i (q - m) else buf q))"
  by (auto simp: upt_0_3 fun_eq_iff numeral_3_eq_3 numeral_2_eq_2 less_Suc_eq)

lemma pack_loop_closed:
  "fold (\<lambda>i. fold (pack_entry s i) [0..<3]) [first..<first + n] (0, buf) =
     (3 * n, (\<lambda>q. if q < 3 * n then stds s (first + q div 3) (q mod 3) else buf q))"
proof (induction n)
  case 0
  show ?case by simp
next
  case (Suc n)
  have "fold (\<lambda>i. fold (pack_entry s i) [0..<3]) [first..<first + Suc n] (0, buf) =
        fold (pack_entry s (first + n)) [0..<3]
          (fold (\<lambda>i. fold (pack_entry s i) [0..<3]) [first..<first + n] (0, buf))"
    by simp
  also have "\<dots> = fold (pack_entry s (first + n)) [0..<3]
          (3 * n, (\<lambda>q. if q < 3 * n then stds s (first + q div 3) (q mod 3) else buf q))"
    by (simp only: Suc)
  also have "\<dots> = (3 * Suc n,
          (\<lambda>q. if q < 3 * Suc n then stds s (first + q div 3) (q mod 3) else buf q))"
  proof -
    have "stds s (first + n) (q - 3 * n) = stds s (first + q div 3) (q mod 3)"
      if "3 * n \<le> q" "q < 3 * n + 3" for q
    proof -
      from that have q: "q = n * 3 + (q - 3 * n)" and r: "q - 3 * n < 3"
        by simp_all
      have "q div 3 = n" "q mod 3 = q - 3 * n"
        by (subst q, simp add: r)+
      then show ?thesis by simp
    qed
    then show ?thesis
      by (auto simp: pack_atom_closed fun_eq_iff)
  qed
  finally show ?case .
qed

lemma unpack_atom_closed:
  "fold (unpack_entry buf j) [0..<3] (m, st) =
     (m + 3, (\<lambda>a c. st a c + (if a = j \<and> c < 3 then buf (m + c) else 0)))"
  by (auto simp: upt_0_3 set2_def fun_eq_iff numeral_3_eq_3 less_Suc_eq)

lemma unpack_loop_closed:
  "fold (\<lambda>i. fold (unpack_entry buf (list i)) [0..<3]) [0..<n] (0, st) =
     (3 * n, (\<lambda>a c. st a c + (\<Sum>i<n. if list i = a \<and> c < 3 then buf (3 * i + c) else 0)))"
proof (induction n)
  case 0
  show ?case by (simp add: fun_eq_iff)
next
  case (Suc n)
  have "fold (\<lambda>i. fold (unpack_entry buf (list i)) [0..<3]) [0..<Suc n] (0, st) =
        fold (unpack_entry buf (list n)) [0..<3]
          (fold (\<lambda>i. fold (unpack_entry buf (list i)) [0..<3]) [0..<n] (0, st))"
    by simp
  also have "\<dots> = fold (unpack_entry buf (list n)) [0..<3]
     (3 * n, (\<lambda>a c. st a c + (\<Sum>i<n. if list i = a \<and> c < 3 then buf (3 * i + c) else 0)))"
    by (simp only: Suc)
  also have "\<dots> =
     (3 * Suc n, (\<lambda>a c. st a c + (\<Sum>i<Suc n. if list i = a \<and> c < 3 then buf (3 * i + c) else 0)))"
    by (auto simp: unpack_atom_closed fun_eq_iff)
  finally show ?case .
qed

subsection \<open>read\_file, the quadratic form, and the examples\<close>

lemma read_file_unfold:
  "read_file atof junk fptr hdr s =
     (case fptr of
        None \<Rightarrow> Inl CannotOpen
      | Some tail \<Rightarrow>
          if cdiv (wrap32 (descriptors_of hdr * wrap32 (descriptors_of hdr + 1))) 2
               \<noteq> scan_beta_size hdr
          then Inl BetaSizeMismatch
          else (case grab atof tail (wrap32 (scan_beta_size hdr * scan_n_species hdr))
                       (map junk [0..<nat (wrap32 (scan_beta_size hdr * scan_n_species hdr))]) of
                  Inl e \<Rightarrow> Inl e
                | Inr (rest, b) \<Rightarrow>
                    if 0 < scan_n_species hdr \<and> descriptors_of hdr < 0
                    then Inl NegativeMatrixSize
                    else if length b < nat (scan_n_species hdr)
                                * (nat (descriptors_of hdr) * (nat (descriptors_of hdr) + 1) div 2)
                    then Inl (OutOfBoundsRead (length b))
                    else Inr (fill_beta_matrices (header_state hdr s\<lparr>beta := b\<rparr>))))"
  by (auto simp: read_file_def Let_def descriptors_of_def header_state_def
           split: option.splits sum.splits prod.splits)

lemma fill_beta_matrices_fields:
  "n_species (fill_beta_matrices s) = n_species s"
  "n_max (fill_beta_matrices s) = n_max s"
  "l_max (fill_beta_matrices s) = l_max s"
  "beta_size (fill_beta_matrices s) = beta_size s"
  "cutoff (fill_beta_matrices s) = cutoff s"
  "n_descriptors (fill_beta_matrices s) = n_descriptors s"
  "basis_function (fill_beta_matrices s) = basis_function s"
  "radial_hyps (fill_beta_matrices s) = radial_hyps s"
  "cutoff_function (fill_beta_matrices s) = cutoff_function s"
  "beta (fill_beta_matrices s) = beta s"
  "nmax (fill_beta_matrices s) = nmax s"
  "stds (fill_beta_matrices s) = stds s"
  "desc_derv (fill_beta_matrices s) = desc_derv s"
  "comm_reverse (fill_beta_matrices s) = comm_reverse s"
  by (simp_all add: fill_beta_matrices_def)

lemma read_file_success:
  assumes "read_file atof junk fptr hdr s0 = Inr s"
  shows "\<exists>tail rest.
           fptr = Some tail
         \<and> grab atof tail (wrap32 (scan_beta_size hdr * scan_n_species hdr))
              (map junk [0..<nat (wrap32 (scan_beta_size hdr * scan_n_species hdr))])
             = Inr (rest, beta s)"
    and "n_species s = scan_n_species hdr"
    and "n_max s = scan_n_max hdr"
    and "l_max s = scan_l_max hdr"
    and "beta_size s = scan_beta_size hdr"
    and "cutoff s = scan_cutoff hdr"
    and "n_descriptors s = descriptors_of hdr"
    and "cdiv (wrap32 (n_descriptors s * wrap32 (n_descriptors s + 1))) 2 = beta_size s"
    and "\<not> (0 < n_species s \<and> n_descriptors s < 0)"
    and "beta_matrices s =
           beta_matrices s0 @ map (\<lambda>k. sym_matrix (beta s) (nat (n_descriptors s))
                               (k * row_start (nat (n_descriptors s)) (nat (n_descriptors s))))
                           [0..<nat (n_species s)]"
    and "basis_function s =
           (if radial_string hdr = ''chebyshev'' then Some chebyshev else basis_function s0)"
    and "radial_hyps s =
           (if radial_string hdr = ''chebyshev'' then [0, scan_cutoff hdr] else radial_hyps s0)"
    and "nmax s = nmax s0" and "stds s = stds s0" and "desc_derv s = desc_derv s0"
    and "nat (n_species s) * (nat (n_descriptors s) * (nat (n_descriptors s) + 1) div 2)
           \<le> length (beta s)"
    and "comm_reverse s = comm_reverse s0"
proof -
  from assms obtain tail rest b where f: "fptr = Some tail"
    and chk: "cdiv (wrap32 (descriptors_of hdr * wrap32 (descriptors_of hdr + 1))) 2
                = scan_beta_size hdr"
    and g: "grab atof tail (wrap32 (scan_beta_size hdr * scan_n_species hdr))
              (map junk [0..<nat (wrap32 (scan_beta_size hdr * scan_n_species hdr))])
             = Inr (rest, b)"
    and nn: "\<not> (0 < scan_n_species hdr \<and> descriptors_of hdr < 0)"
    and rd: "\<not> length b < nat (scan_n_species hdr)
                * (nat (descriptors_of hdr) * (nat (descriptors_of hdr) + 1) div 2)"
    and s: "s = fill_beta_matrices (header_state hdr s0\<lparr>beta := b\<rparr>)"
    by (auto simp: read_file_unfold split: option.splits if_splits sum.splits prod.splits)
  have b: "beta s = b"
    by (simp add: s fill_beta_matrices_fields)
  show "\<exists>tail rest.
           fptr = Some tail
         \<and> grab atof tail (wrap32 (scan_beta_size hdr * scan_n_species hdr))
              (map junk [0..<nat (wrap32 (scan_beta_size hdr * scan_n_species hdr))])
             = Inr (rest, beta s)"
    using f g b by simp
  show "n_species s = scan_n_species hdr" "n_max s = scan_n_max hdr" "l_max s = scan_l_max hdr"
    "beta_size s = scan_beta_size hdr" "cutoff s = scan_cutoff hdr"
    "nmax s = nmax s0" "stds s = stds s0" "desc_derv s = desc_derv s0"
    "comm_reverse s = comm_reverse s0"
    by (simp_all add: s fill_beta_matrices_fields header_state_def)
  show d': "n_descriptors s = descriptors_of hdr"
    by (simp add: s fill_beta_matrices_fields header_state_def)
  show "cdiv (wrap32 (n_descriptors s * wrap32 (n_descriptors s + 1))) 2 = beta_size s"
    using chk by (simp add: d' s fill_beta_matrices_fields header_state_def)
  show "\<not> (0 < n_species s \<and> n_descriptors s < 0)"
    using nn by (simp add: d' s fill_beta_matrices_fields header_state_def)
  show "nat (n_species s) * (nat (n_descriptors s) * (nat (n_descriptors s) + 1) div 2)
           \<le> length (beta s)"
    using rd by (simp add: d' b) (simp add: s fill_beta_matrices_fields header_state_def)
  show "beta_matrices s =
           beta_matrices s0 @ map (\<lambda>k. sym_matrix (beta s) (nat (n_descriptors s))
                               (k * row_start (nat (n_descriptors s)) (nat (n_descriptors s))))
                           [0..<nat (n_species s)]"
    by (subst s, subst beta_matrices_fill)
       (simp add: s fill_beta_matrices_fields header_state_def)
  show "basis_function s =
           (if radial_string hdr = ''chebyshev'' then Some chebyshev else basis_function s0)"
    "radial_hyps s =
           (if radial_string hdr = ''chebyshev'' then [0, scan_cutoff hdr] else radial_hyps s0)"
    by (simp_all add: s fill_beta_matrices_fields header_state_def)
qed

lemma cdiv_nonneg: "0 \<le> a \<Longrightarrow> 0 < b \<Longrightarrow> cdiv a b = a div b"
  by (simp add: cdiv_def sgn_if)



lemma row_start_half: "row_start D D = D * (D + 1) div 2"
  using row_start_total [of D] by simp

lemma wrap32_range: "- 2147483648 \<le> wrap32 x" "wrap32 x < 2147483648"
  by (simp_all add: wrap32_def)

lemma wrap32_id: "- 2147483648 \<le> x \<Longrightarrow> x < 2147483648 \<Longrightarrow> wrap32 x = x"
  by (simp add: wrap32_def)

lemma wrap32_high: "2147483648 \<le> x \<Longrightarrow> x < 4294967296 \<Longrightarrow> wrap32 x = x - 4294967296"
proof -
  assume a: "2147483648 \<le> x" "x < 4294967296"
  have e: "x + 2147483648 = x - 2147483648 + 1 * 4294967296"
    by simp
  have "(x + 2147483648) mod 4294967296 = (x - 2147483648) mod 4294967296"
    by (subst e) (rule mod_mult_self1)
  also have "\<dots> = x - 2147483648"
    using a by simp
  finally show ?thesis by (simp add: wrap32_def)
qed

lemma sym_matrix_upper:
  "i \<le> j \<Longrightarrow> j < D \<Longrightarrow> coeff (sym_matrix b D st) i j = cell b (st + row_start D i) i j"
  by (simp add: sym_matrix_def)

lemma sym_matrix_lower:
  "i \<le> j \<Longrightarrow> j < D \<Longrightarrow> coeff (sym_matrix b D st) j i = cell b (st + row_start D i) i j"
  by (auto simp: sym_matrix_def)

lemma sym_matrix_symmetric:
  "coeff (sym_matrix b D st) a c = coeff (sym_matrix b D st) c a"
  by (auto simp: sym_matrix_def)

lemma read_file_matrix:
  assumes "read_file atof junk fptr hdr s0 = Inr s" "k < nat (n_species s)"
  shows "beta_matrices s ! (length (beta_matrices s0) + k) =
           sym_matrix (beta s) (nat (n_descriptors s))
             (k * row_start (nat (n_descriptors s)) (nat (n_descriptors s)))"
  using assms(2) by (simp add: read_file_success(10) [OF assms(1)] nth_append)

lemma read_file_beta_length:
  assumes "read_file atof junk fptr hdr s0 = Inr s"
  shows "length (beta s) = nat (wrap32 (beta_size s * n_species s))"
proof -
  from read_file_success(1) [OF assms] obtain tail rest where
    "grab atof tail (wrap32 (scan_beta_size hdr * scan_n_species hdr))
              (map junk [0..<nat (wrap32 (scan_beta_size hdr * scan_n_species hdr))])
       = Inr (rest, beta s)"
    by blast
  from grab_length [OF this] show ?thesis
    by (simp add: read_file_success(2,5) [OF assms])
qed

lemma cdiv_negative:
  assumes "- 2147483648 \<le> w" "w < 0"
  shows "cdiv w 2 \<le> 0" "- 2147483648 \<le> cdiv w 2"
proof -
  have c: "cdiv w 2 = - ((- w) div 2)"
    using assms(2) by (simp add: cdiv_def sgn_if)
  from assms show "cdiv w 2 \<le> 0" "- 2147483648 \<le> cdiv w 2"
    unfolding c by simp_all
qed

text \<open>A load that succeeds with at least one species and one descriptor has compared the
  exact triangle number with \<open>beta_size\<close>: had the product \<open>D (D + 1)\<close> left the 32-bit
  range, the array would be too short for the reads of the fill loops.\<close>

lemma read_file_block:
  assumes ok: "read_file atof junk fptr hdr s0 = Inr s"
      and sp: "0 < n_species s" and ds: "0 < n_descriptors s"
  shows "nat (beta_size s) = row_start (nat (n_descriptors s)) (nat (n_descriptors s))"
proof -
  define d where "d = nat (n_descriptors s)"
  define n where "n = nat (n_species s)"
  define t where "t = d * (d + 1) div 2"
  have D: "n_descriptors s = int d" using ds by (simp add: d_def)
  have n1: "1 \<le> n" using sp by (simp add: n_def)
  have d1: "1 \<le> d" using ds by (simp add: d_def)
  have bound: "n * t \<le> length (beta s)"
    using read_file_success(16) [OF ok] by (simp add: n_def t_def d_def)
  have "wrap32 (beta_size s * n_species s) < 2147483648"
    by (rule wrap32_range)
  then have len: "length (beta s) < 2147483648"
    using read_file_beta_length [OF ok] by simp
  have "even (d * (d + 1))" by simp
  then have tt: "2 * t = d * (d + 1)"
    unfolding t_def by (rule dvd_mult_div_cancel)
  have tn: "t \<le> n * t" using n1 by (cases n) simp_all
  from tn bound len have tl: "t < 2147483648" by linarith
  have dl: "d < 65536"
  proof (rule ccontr)
    assume "\<not> d < 65536"
    then have a: "65536 \<le> d" and b: "65537 \<le> d + 1" by simp_all
    from a b have "65536 * 65537 \<le> d * (d + 1)" by (rule mult_le_mono)
    then have "4295032832 \<le> 2 * t" by (simp add: tt)
    with tl show False by linarith
  qed
  have w1: "wrap32 (int d + 1) = int d + 1"
    using dl by (intro wrap32_id) simp_all
  have P: "int d * (int d + 1) = int (2 * t)"
    unfolding tt by (simp add: algebra_simps)
  have chk: "cdiv (wrap32 (int (2 * t))) 2 = beta_size s"
    using read_file_success(8) [OF ok] by (simp only: D w1 P)
  show ?thesis
  proof (cases "t < 1073741824")
    case True
    then have "wrap32 (int (2 * t)) = int (2 * t)"
      by (intro wrap32_id) simp_all
    moreover have "cdiv (int (2 * t)) 2 = int (2 * t) div 2"
      by (rule cdiv_nonneg) simp_all
    ultimately have "beta_size s = int t"
      using chk by simp
    then show ?thesis
      by (simp add: d_def [symmetric] row_start_half t_def)
  next
    case False
    then have big: "1073741824 \<le> t" by simp
    have "wrap32 (int (2 * t)) = int (2 * t) - 4294967296"
      using big tl by (intro wrap32_high) simp_all
    then have w: "beta_size s = cdiv (int (2 * t) - 4294967296) 2"
      using chk by simp
    have r: "- 2147483648 \<le> int (2 * t) - 4294967296" "int (2 * t) - 4294967296 < 0"
      using big tl by simp_all
    have neg: "beta_size s \<le> 0" and low: "- 2147483648 \<le> beta_size s"
      unfolding w using r by (rule cdiv_negative)+
    have "n < 2"
    proof (rule ccontr)
      assume "\<not> n < 2"
      then have "2 \<le> n" by simp
      then have "2 * t \<le> n * t" by (rule mult_le_mono1)
      with big bound len show False by linarith
    qed
    with n1 have "n = 1" by simp
    then have "n_species s = 1" using sp by (simp add: n_def)
    then have "length (beta s) = nat (wrap32 (beta_size s))"
      using read_file_beta_length [OF ok] by simp
    also have "wrap32 (beta_size s) = beta_size s"
      using low neg by (intro wrap32_id) simp_all
    finally have "length (beta s) = 0" using neg by simp
    with bound tn big show ?thesis by linarith
  qed
qed



text \<open>Outside the range of \<open>no_overflow\<close> the check compares 32-bit results: for the
  header \<open>65536 65536 0 0\<close> the product \<open>n_max * n_species\<close> is stored as \<open>0\<close>, the
  descriptor count and the expected size are \<open>0\<close>, and the file is loaded.\<close>

lemma wrapped_header_loads:
  "\<not> no_overflow header_wrapped"
  "descriptors_of header_wrapped = 0"
  "\<exists>s'. read_file atof junk (Some []) header_wrapped s = Inr s' \<and> n_descriptors s' = 0"
proof -
  show "\<not> no_overflow header_wrapped"
    by (simp add: no_overflow_def int32_def Let_def header_wrapped_def header_1101_def)
  show d: "descriptors_of header_wrapped = 0"
    by (simp add: descriptors_of_def header_wrapped_def header_1101_def wrap32_def cdiv_def)
  have f: "scan_beta_size header_wrapped = 0" "scan_n_species header_wrapped = 65536"
    by (simp_all add: header_wrapped_def header_1101_def)
  have w: "wrap32 0 = 0" "wrap32 1 = 1"
    by (simp_all add: wrap32_def)
  have g: "grab atof [] 0 [] = Inr ([], [])"
    unfolding grab_def by (rule grab_loop_done) simp
  have "read_file atof junk (Some []) header_wrapped s =
          Inr (fill_beta_matrices (header_state header_wrapped s\<lparr>beta := []\<rparr>))"
    by (simp add: read_file_unfold d f w g cdiv_def)
  moreover have "n_descriptors (fill_beta_matrices (header_state header_wrapped s\<lparr>beta := []\<rparr>)) = 0"
    by (simp add: fill_beta_matrices_fields header_state_def d)
  ultimately show "\<exists>s'. read_file atof junk (Some []) header_wrapped s = Inr s'
                     \<and> n_descriptors s' = 0"
    by simp
qed

lemma upper_form_full:
  assumes sym: "\<forall>a<D. \<forall>c<D. M a c = M c a"
  shows "upper_form d M D = (\<Sum>nl1<D. \<Sum>nl2<D. d nl1 * M nl1 nl2 * d nl2)"
proof -
  let ?f = "\<lambda>i j. d i * M i j * d j"
  have "n \<le> D \<Longrightarrow>
        (\<Sum>i<n. \<Sum>j = i..<n. tri_term d M i j) = (\<Sum>i<n. \<Sum>j<n. ?f i j)" for n
  proof (induction n)
    case 0
    show ?case by simp
  next
    case (Suc n)
    then have IH: "(\<Sum>i<n. \<Sum>j = i..<n. tri_term d M i j) = (\<Sum>i<n. \<Sum>j<n. ?f i j)"
      and nD: "n < D" by simp_all
    have col: "(\<Sum>j<n. ?f n j) = (\<Sum>i<n. ?f i n)"
    proof (rule sum.cong [OF refl])
      fix j assume "j \<in> {..<n}"
      then have "j < D" using nD by simp
      with sym nD have "M n j = M j n" by simp
      then show "?f n j = ?f j n" by simp
    qed
    have "(\<Sum>i<Suc n. \<Sum>j = i..<Suc n. tri_term d M i j)
          = (\<Sum>i<n. \<Sum>j = i..<Suc n. tri_term d M i j) + tri_term d M n n"
      by simp
    also have "(\<Sum>i<n. \<Sum>j = i..<Suc n. tri_term d M i j)
          = (\<Sum>i<n. (\<Sum>j = i..<n. tri_term d M i j) + ?f i n * 2)"
      by (rule sum.cong [OF refl]) (simp add: tri_term_def)
    also have "\<dots> = (\<Sum>i<n. \<Sum>j = i..<n. tri_term d M i j) + (\<Sum>i<n. ?f i n) * 2"
      by (simp add: sum.distrib sum_distrib_right)
    finally have "(\<Sum>i<Suc n. \<Sum>j = i..<Suc n. tri_term d M i j)
          = (\<Sum>i<n. \<Sum>j = i..<n. tri_term d M i j) + (\<Sum>i<n. ?f i n) * 2 + tri_term d M n n" .
    moreover have "tri_term d M n n = ?f n n"
      by (simp add: tri_term_def)
    ultimately have lhs: "(\<Sum>i<Suc n. \<Sum>j = i..<Suc n. tri_term d M i j)
          = (\<Sum>i<n. \<Sum>j<n. ?f i j) + (\<Sum>i<n. ?f i n) * 2 + ?f n n"
      by (simp only: IH)
    have "(\<Sum>i<Suc n. \<Sum>j<Suc n. ?f i j)
          = (\<Sum>i<n. (\<Sum>j<n. ?f i j) + ?f i n) + ((\<Sum>j<n. ?f n j) + ?f n n)"
      by simp
    also have "\<dots> = (\<Sum>i<n. \<Sum>j<n. ?f i j) + (\<Sum>i<n. ?f i n) * 2 + ?f n n"
      by (simp add: sum.distrib col)
    finally show ?case using lhs by simp
  qed
  from this [of D] show ?thesis by (simp add: upper_form_def)
qed

lemma upper_form_weights:
  "upper_form d M D =
     (\<Sum>nl1<D. \<Sum>nl2 = nl1..<D. (if nl1 = nl2 then 1 else 2) * (d nl1 * M nl1 nl2 * d nl2))"
  unfolding upper_form_def
  by (intro sum.cong refl) (simp add: tri_term_def)

lemma grow_fields:
  "n_descriptors (grow h s) = n_descriptors s"
  "cutoff (grow h s) = cutoff s"
  "beta_matrices (grow h s) = beta_matrices s"
  "nmax (grow h s) = max (nmax s) (atom_nmax h)"
  by (simp_all add: grow_def)

lemma reset_fields:
  "n_descriptors (reset h s) = n_descriptors s"
  "cutoff (reset h s) = cutoff s"
  "beta_matrices (reset h s) = beta_matrices s"
  "nmax (reset h s) = nmax s"
  by (simp_all add: reset_def split: prod.splits)

lemma accumulate_fields:
  "n_descriptors (accumulate h s) = n_descriptors s"
  "cutoff (accumulate h s) = cutoff s"
  "beta_matrices (accumulate h s) = beta_matrices s"
  "nmax (accumulate h s) = nmax s"
  "stds (accumulate h s) = stds s"
  by (simp_all add: accumulate_def)

lemma evaluate_fields:
  "n_descriptors (evaluate h s) = n_descriptors s"
  "cutoff (evaluate h s) = cutoff s"
  "beta_matrices (evaluate h s) = beta_matrices s"
  "nmax (evaluate h s) = nmax s"
  "desc_derv (evaluate h s) = desc_derv s"
  by (simp_all add: evaluate_def)

lemma compute_peratom_fields:
  "n_descriptors (compute_peratom h s) = n_descriptors s"
  "cutoff (compute_peratom h s) = cutoff s"
  "beta_matrices (compute_peratom h s) = beta_matrices s"
  "nmax (compute_peratom h s) = max (nmax s) (atom_nmax h)"
  "desc_derv (compute_peratom h s) = desc_derv (accumulate h (reset h (grow h s)))"
  by (simp_all add: compute_peratom_def evaluate_fields accumulate_fields reset_fields grow_fields)

lemma stds_compute_peratom:
  assumes "inj_on (list_ilist h) {..<list_inum h}" "ii < list_inum h" "list_inum h \<le> ntotal h"
      and "c < 3"
  shows "stds (compute_peratom h s) (list_ilist h ii) c =
           upper_form (desc_derv (accumulate h (reset h (grow h s))) (list_ilist h ii * 3 + c))
             (coeff (beta_matrices s ! nat (atom_type h (list_ilist h ii) - 1)))
             (nat (n_descriptors s))"
proof -
  from assms(2,3) have "\<exists>k<ntotal h. list_ilist h k = list_ilist h ii"
    by (intro exI [of _ ii]) simp
  then have zero: "stds (reset h (grow h s)) (list_ilist h ii) c = 0"
    using assms(4) by (subst stds_reset) auto
  show ?thesis
    unfolding compute_peratom_def
    by (simp add: stds_evaluate [OF assms(1,2,4)] zero accumulate_fields reset_fields grow_fields)
qed

lemma load_one: "read_file atof_digit zero_memory (Some tail_one) header_1101 fresh_object = Inr loaded_object"
proof -
  have "\<not> isl (read_file atof_digit zero_memory (Some tail_one) header_1101 fresh_object)"
    by code_simp
  then show ?thesis by (simp add: loaded_object_def)
qed

lemma beta_loaded: "beta loaded_object = [1]"
  unfolding loaded_object_def by code_simp

lemma loaded_fields:
  "n_species loaded_object = 1" "n_descriptors loaded_object = 1" "cutoff loaded_object = 2"
  "beta_size loaded_object = 1"
  "nmax loaded_object = 0" "stds loaded_object = (\<lambda>a c. 0)" "desc_derv loaded_object = (\<lambda>r nl. 0)"
  "beta_matrices loaded_object = [sym_matrix [1] 1 0]"
  using read_file_success(2,5,6,7,10,13,14,15) [OF load_one]
  by (simp_all add: header_1101_def fresh_object_def constructor_flags_def descriptors_of_def
        wrap32_def cdiv_def beta_loaded)

lemma two_atoms_fields:
  "atom_nmax two_atoms = 2" "atom_nlocal two_atoms = 1" "atom_nghost two_atoms = 1"
  "force_newton two_atoms" "list_inum two_atoms = 1" "list_ilist two_atoms ii = 0"
  "list_numneigh two_atoms 0 = 1" "list_firstneigh two_atoms i jj = 1"
  "atom_type two_atoms a = 1"
  "B2_env_dervs two_atoms i n_inner = (\<lambda>r nl. 1)"
  "created_stds two_atoms = (\<lambda>a c. 0)" "created_desc_derv two_atoms = (\<lambda>r nl. 0)"
  "ntotal two_atoms = 2"
  by (simp_all add: two_atoms_def ntotal_def)

lemma two_atoms_count: "count_inner two_atoms 2 0 = 1"
  by (simp add: count_inner_def count_step_def two_atoms_def)

lemma add_pair_closed:
  "add_pair B D i j n_count dd r nl =
     dd r nl + (if r div 3 = i \<and> nl < D then B (n_count * 3 + r mod 3) nl else 0)
             - (if r div 3 = j \<and> nl < D then B (n_count * 3 + r mod 3) nl else 0)"
proof -
  have r: "r = r div 3 * 3 + r mod 3" by simp
  have "add_pair B D i j n_count dd (r div 3 * 3 + r mod 3) nl =
     dd (r div 3 * 3 + r mod 3) nl
       + (if r div 3 = i \<and> nl < D then B (n_count * 3 + r mod 3) nl else 0)
       - (if r div 3 = j \<and> nl < D then B (n_count * 3 + r mod 3) nl else 0)"
    by (rule add_pair_at) simp
  then show ?thesis by (simp only: r [symmetric])
qed

lemma two_atoms_neigh_step:
  "neigh_step two_atoms 2 D 0 B 0 (0, dd) = (1, add_pair B D 0 1 0 dd)"
  by (simp add: two_atoms_def)

lemma two_atoms_accumulate_atom:
  "accumulate_atom two_atoms 2 D 0 dd = add_pair (\<lambda>r nl. 1) D 0 1 0 dd"
  by (simp add: accumulate_atom_def Let_def two_atoms_count two_atoms_fields two_atoms_neigh_step
           del: neigh_step.simps)

lemma two_atoms_accumulate:
  assumes "cutoff s = 2"
  shows "desc_derv (accumulate two_atoms s) r nl =
     desc_derv s r nl + (if r div 3 = 0 \<and> nl < nat (n_descriptors s) then 1 else 0)
                     - (if r div 3 = 1 \<and> nl < nat (n_descriptors s) then 1 else 0)"
  by (simp add: accumulate_def assms two_atoms_fields two_atoms_accumulate_atom add_pair_closed)

lemma two_atoms_reset:
  "desc_derv (reset two_atoms s) r nl =
     (if r div 3 = 0 \<and> nl < nat (n_descriptors s) then 0 else desc_derv s r nl)"
proof -
  have "(\<exists>ii<2::nat. (0::nat) = r div 3) = (r div 3 = 0)"
    by (auto intro: exI [of _ "0::nat"])
  then show ?thesis by (simp add: desc_derv_reset two_atoms_fields)
qed

lemma two_atoms_grow_loaded:
  "desc_derv (grow two_atoms loaded_object) = (\<lambda>r nl. 0)"
  "stds (grow two_atoms loaded_object) = (\<lambda>a c. 0)"
  by (simp_all add: grow_def loaded_fields two_atoms_fields)

lemma two_atoms_first_step:
  "desc_derv (compute_peratom two_atoms loaded_object) r nl =
     (if nl = 0 then (if r div 3 = 0 then 1 else if r div 3 = 1 then - 1 else 0) else 0)"
proof -
  have c: "cutoff (reset two_atoms (grow two_atoms loaded_object)) = 2"
    and n: "n_descriptors (reset two_atoms (grow two_atoms loaded_object)) = 1"
    by (simp_all add: reset_fields grow_fields loaded_fields)
  have z: "desc_derv (reset two_atoms (grow two_atoms loaded_object)) r nl = 0"
    by (simp add: two_atoms_reset two_atoms_grow_loaded)
  show ?thesis
    by (simp add: compute_peratom_fields two_atoms_accumulate [OF c] n z)
qed

lemma two_atoms_second_reset:
  "desc_derv (reset two_atoms (grow two_atoms (compute_peratom two_atoms loaded_object))) r nl =
     (if r div 3 = 1 \<and> nl = 0 then - 1 else 0)"
proof -
  have "nmax (compute_peratom two_atoms loaded_object) = 2"
    by (simp add: compute_peratom_fields loaded_fields two_atoms_fields)
  then have g: "grow two_atoms (compute_peratom two_atoms loaded_object)
                 = compute_peratom two_atoms loaded_object"
    by (simp add: grow_def two_atoms_fields)
  show ?thesis
    by (simp add: g two_atoms_reset two_atoms_first_step compute_peratom_fields(1) loaded_fields)
qed

lemma load_two:
  "read_file atof_digit zero_memory (Some tail_three) header_1113 fresh_object = Inr loaded_two"
proof -
  have "\<not> isl (read_file atof_digit zero_memory (Some tail_three) header_1113 fresh_object)"
    by code_simp
  then show ?thesis by (simp add: loaded_two_def)
qed

lemma beta_two: "beta loaded_two = [1, 2, 3]"
  unfolding loaded_two_def by code_simp

lemma loaded_two_fields:
  "n_species loaded_two = 1" "n_descriptors loaded_two = 2" "beta_size loaded_two = 3"
  using read_file_success(2,5,7) [OF load_two]
  by (simp_all add: header_1113_def header_1101_def descriptors_of_def wrap32_def cdiv_def)

lemma fresh_object_matrices: "beta_matrices fresh_object = []"
  by (simp add: fresh_object_def constructor_flags_def)

lemma descriptors_of_radial [simp]:
  "descriptors_of (hdr\<lparr>radial_string := tok\<rparr>) = descriptors_of hdr"
  by (simp add: descriptors_of_def)

lemma two_atoms_in_range:
  "\<forall>ii<list_inum two_atoms. list_ilist two_atoms ii < 2 \<and>
     (\<forall>jj<list_numneigh two_atoms (list_ilist two_atoms ii).
        list_firstneigh two_atoms (list_ilist two_atoms ii) jj < 2)"
  by (simp add: two_atoms_fields)

lemma pack_reads_stds:
  assumes "stds s' = stds s"
  shows "pack_reverse_comm n first buf s' = pack_reverse_comm n first buf s"
proof -
  have "pack_reverse_comm n first buf s' =
          (3 * n, (\<lambda>q. if q < 3 * n then stds s' (first + q div 3) (q mod 3) else buf q))"
    by (simp add: pack_reverse_comm_def pack_loop_closed)
  also have "\<dots> = (3 * n, (\<lambda>q. if q < 3 * n then stds s (first + q div 3) (q mod 3) else buf q))"
    by (simp only: assms)
  also have "\<dots> = pack_reverse_comm n first buf s"
    by (simp add: pack_reverse_comm_def pack_loop_closed)
  finally show ?thesis .
qed

lemma unpack_keeps_desc_derv:
  "desc_derv (unpack_reverse_comm n list buf s) = desc_derv s"
  by (simp add: unpack_reverse_comm_def)

subsection \<open>grab on a file whose lines hold exactly the wanted values\<close>

lemma fgets_take_line:
  "CHR 0x0A \<notin> set body \<Longrightarrow> length body < k \<Longrightarrow>
   fgets_take k (body @ CHR 0x0A # rest) = (body @ [CHR 0x0A], rest)"
proof (induction body arbitrary: k)
  case Nil
  then show ?case by (cases k) simp_all
next
  case (Cons c body)
  then obtain k' where k: "k = Suc k'" by (cases k) simp_all
  with Cons.prems have "CHR 0x0A \<notin> set body" "length body < k'" "c \<noteq> CHR 0x0A" by auto
  with Cons.IH [of k'] show ?case by (simp add: k)
qed

lemma fgets_line:
  assumes "text_line l"
  shows "fgets MAXLINE (l @ rest) = Some (l, rest)"
proof -
  from assms have ne: "l \<noteq> []" and la: "last l = CHR 0x0A"
    and nb: "CHR 0x0A \<notin> set (butlast l)" and len: "length l < MAXLINE"
    by (simp_all add: text_line_def)
  define body where "body = butlast l"
  from ne la have l: "l = body @ [CHR 0x0A]"
    using append_butlast_last_id [of l] by (simp add: body_def)
  have "CHR 0x0A \<notin> set body" "length body < MAXLINE - 1"
    using nb len by (simp_all add: body_def MAXLINE_def)
  then have "fgets_take (MAXLINE - 1) (body @ CHR 0x0A # rest) = (body @ [CHR 0x0A], rest)"
    by (rule fgets_take_line)
  then show ?thesis by (simp add: fgets_def l)
qed

lemma store_tokens_fits:
  "i + length ts \<le> length list \<Longrightarrow>
   store_tokens atof ts i list =
     Inr (i + length ts, take i list @ map atof ts @ drop (i + length ts) list)"
proof (induction ts arbitrary: i list)
  case Nil
  then show ?case by simp
next
  case (Cons t ts)
  then have i: "i < length list" and fit: "Suc i + length ts \<le> length (list[i := atof t])"
    by simp_all
  have "take (Suc i) (list[i := atof t]) = take i list @ [atof t]"
    using i by (simp add: take_Suc_conv_app_nth)
  then show ?case
    using i Cons.IH [OF fit] by simp
qed

lemma grab_loop_aligned:
  assumes "\<forall>l\<in>set ls. text_line l \<and> line_tokens l \<noteq> []"
      and "int i + int (length (concat (map line_tokens ls))) = n"
      and "i + length (concat (map line_tokens ls)) \<le> length list"
  shows "grab_loop atof n (concat ls) line i list =
           Inr ([], take i list @ map atof (concat (map line_tokens ls))
                    @ drop (i + length (concat (map line_tokens ls))) list)"
  using assms
proof (induction ls arbitrary: line i list)
  case Nil
  then show ?case by (simp add: grab_loop_done)
next
  case (Cons l ls)
  let ?toks = "line_tokens l"
  let ?rest = "concat (map line_tokens ls)"
  from Cons.prems(1) have tl: "text_line l" and ne: "?toks \<noteq> []" by simp_all
  then obtain t ts where lt_toks: "line_tokens l = t # ts"
    by (cases "line_tokens l") simp_all
  then have toks: "strtok_all (c_str l) = t # ts"
    by (simp add: line_tokens_def)
  from Cons.prems(2) ne have lt: "int i < n"
    by (cases ?toks) simp_all
  have fit: "i + length (t # ts) \<le> length list"
    using Cons.prems(3) by (simp add: lt_toks)
  define list1 where "list1 = take i list @ map atof (t # ts) @ drop (i + length (t # ts)) list"
  have st: "store_tokens atof (t # ts) i list = Inr (i + length (t # ts), list1)"
    unfolding list1_def using fit by (rule store_tokens_fits)
  have len1: "length list1 = length list"
    using fit by (simp add: list1_def)
  have step: "grab_loop atof n (concat (l # ls)) line i list =
        grab_loop atof n (concat ls) (Some (takeWhile is_delim (c_str l) @ t))
          (i + length (t # ts)) list1"
    by (simp add: grab_loop_step [OF lt] fgets_line [OF tl] toks st del: store_tokens.simps)
  have IH: "grab_loop atof n (concat ls) (Some (takeWhile is_delim (c_str l) @ t))
          (i + length (t # ts)) list1 =
        Inr ([], take (i + length (t # ts)) list1 @ map atof ?rest
                 @ drop (i + length (t # ts) + length ?rest) list1)"
  proof (rule Cons.IH)
    show "\<forall>l\<in>set ls. text_line l \<and> line_tokens l \<noteq> []"
      using Cons.prems(1) by simp
    show "int (i + length (t # ts)) + int (length ?rest) = n"
      using Cons.prems(2) by (simp add: lt_toks)
    show "i + length (t # ts) + length ?rest \<le> length list1"
      using Cons.prems(3) by (simp add: lt_toks len1)
  qed
  have a: "take (i + length (t # ts)) list1 = take i list @ map atof (t # ts)"
    using fit by (simp add: list1_def)
  have b: "drop (i + length (t # ts) + length ?rest) list1
             = drop (i + length (t # ts) + length ?rest) list"
    using fit by (simp add: list1_def add.commute add.left_commute)
  show ?case
    unfolding step IH a b by (simp add: lt_toks add.assoc)
qed

lemma grab_aligned:
  assumes "\<forall>l\<in>set ls. text_line l \<and> line_tokens l \<noteq> []"
      and "length list = length (concat (map line_tokens ls))"
  shows "grab atof (concat ls) (int (length list)) list =
           Inr ([], map atof (concat (map line_tokens ls)))"
  unfolding grab_def
  using grab_loop_aligned [OF assms(1), of 0 "int (length list)" list atof None] assms(2)
  by simp

section \<open>The claims\<close>

subsection \<open>C1: the reconstructed matrices\<close>

text \<open>
  C1. Whenever \<open>read_file\<close> succeeds, then for every species \<open>k\<close> and every pair \<open>i \<le> j\<close> of
  descriptor indices the matrix of species \<open>k\<close> is determined by one stored value: the value
  \<open>raw\<close> that the loops consume for the pair, which sits in \<open>beta\<close> at the position made of
  the \<open>beta_size\<close> values of each earlier species, the \<open>D - r\<close> values of each earlier row \<open>r\<close>
  and the \<open>j - i\<close> earlier values of row \<open>i\<close>, a position inside the array. On the diagonal
  the entry is \<open>raw\<close>; off the diagonal both \<open>(i, j)\<close> and \<open>(j, i)\<close> hold \<open>raw / 2\<close>. Hence the
  matrix is symmetric.
\<close>

theorem reconstructed_matrix:
  assumes "read_file atof junk fptr hdr s0 = Inr s"
      and "k < nat (n_species s)" and "i \<le> j" and "j < nat (n_descriptors s)"
  shows "let D = nat (n_descriptors s);
             pos = k * nat (beta_size s) + (\<Sum>r<i. D - r) + (j - i);
             raw = beta s ! pos;
             Sigma = coeff (beta_matrices s ! (length (beta_matrices s0) + k))
         in pos < length (beta s)
          \<and> (i = j \<longrightarrow> Sigma i j = raw)
          \<and> (i \<noteq> j \<longrightarrow> Sigma i j = raw / 2 \<and> Sigma j i = raw / 2)
          \<and> (\<forall>a<D. \<forall>c<D. Sigma a c = Sigma c a)"
proof -
  define D where "D = nat (n_descriptors s)"
  define T where "T = row_start D D"
  from assms(2,4) have sp: "0 < n_species s" and ds: "0 < n_descriptors s" by simp_all
  have bs: "nat (beta_size s) = T"
    using read_file_block [OF assms(1) sp ds] by (simp add: T_def D_def)
  have M: "beta_matrices s ! (length (beta_matrices s0) + k) = sym_matrix (beta s) D (k * T)"
    using read_file_matrix [OF assms(1,2)] by (simp add: D_def T_def)
  have jD: "j < D" using assms(4) by (simp add: D_def)
  have inner: "row_start D i + (j - i) < T"
    unfolding T_def using assms(3) jD by (rule cell_index_bound)
  have len: "T * nat (n_species s) \<le> length (beta s)"
    using read_file_success(16) [OF assms(1)]
    by (simp add: T_def D_def row_start_half mult.commute)
  have "k * T + (row_start D i + (j - i)) < k * T + T"
    using inner by simp
  also have "\<dots> = T * Suc k" by simp
  also have "\<dots> \<le> T * nat (n_species s)"
    using assms(2) by (intro mult_le_mono2) simp
  also note len
  finally have pos: "k * T + row_start D i + (j - i) < length (beta s)"
    by (simp add: add.assoc)
  have up: "coeff (sym_matrix (beta s) D (k * T)) i j = cell (beta s) (k * T + row_start D i) i j"
    using assms(3) jD by (rule sym_matrix_upper)
  have lo: "coeff (sym_matrix (beta s) D (k * T)) j i = cell (beta s) (k * T + row_start D i) i j"
    using assms(3) jD by (rule sym_matrix_lower)
  have diag: "coeff (sym_matrix (beta s) D (k * T)) i j
                = beta s ! (k * T + (\<Sum>r<i. D - r) + (j - i))" if "i = j"
    using that up by (simp add: cell_def row_start_def)
  have off: "coeff (sym_matrix (beta s) D (k * T)) i j
                = beta s ! (k * T + (\<Sum>r<i. D - r) + (j - i)) / 2
           \<and> coeff (sym_matrix (beta s) D (k * T)) j i
                = beta s ! (k * T + (\<Sum>r<i. D - r) + (j - i)) / 2" if "i \<noteq> j"
    using that up lo by (simp add: cell_def row_start_def)
  have sym: "\<forall>a<D. \<forall>c<D. coeff (sym_matrix (beta s) D (k * T)) a c
                              = coeff (sym_matrix (beta s) D (k * T)) c a"
    by (simp add: sym_matrix_symmetric [of "beta s" D "k * T"])
  from pos have pos': "k * T + (\<Sum>r<i. D - r) + (j - i) < length (beta s)"
    by (simp add: row_start_def)
  show ?thesis
    unfolding Let_def D_def [symmetric] bs M
    using pos' diag off sym by blast
qed

theorem reconstructed_matrix_witness:
  "coeff (beta_matrices loaded_two ! 0) 0 1 = beta loaded_two ! 1 / 2
   \<and> coeff (beta_matrices loaded_two ! 0) 1 0 = beta loaded_two ! 1 / 2
   \<and> coeff (beta_matrices loaded_two ! 0) 1 1 = beta loaded_two ! 2
   \<and> beta loaded_two ! 1 / 2 = 1"
proof -
  have k: "0 < nat (n_species loaded_two)" and j: "1 < nat (n_descriptors loaded_two)"
    by (simp_all add: loaded_two_fields)
  have le: "(0::nat) \<le> 1" and le': "(1::nat) \<le> 1" by simp_all
  from reconstructed_matrix [OF load_two k le j] reconstructed_matrix [OF load_two k le' j]
  show ?thesis
    by (simp add: Let_def loaded_two_fields fresh_object_matrices beta_two)
qed

subsection \<open>C2: the uncertainty is the quadratic form\<close>

text \<open>
  C2. Let the object be loaded by \<open>read_file\<close> (its list of matrices empty before), let the
  first \<open>inum\<close> entries of \<open>ilist\<close> be distinct atoms, all covered by the zeroing loop
  (\<open>inum \<le> ntotal\<close>), and let \<open>i = ilist[ii]\<close> be one of them with a type between \<open>1\<close> and
  \<open>n_species\<close>. Then for each component \<open>c < 3\<close>, after \<open>compute_peratom\<close> the value
  \<open>stds[i][c]\<close> is the full quadratic form of the accumulated derivative row \<open>d\<close> of atom \<open>i\<close>
  and component \<open>c\<close> with the matrix \<open>Sigma\<close> of the atom's species, and it is the sum over
  the upper triangle with weight \<open>1\<close> on the diagonal and weight \<open>2\<close> off it. Nothing else is
  applied to the value: no square root, no normalisation. The row \<open>d\<close> that the evaluation
  reads is the row left by the accumulation loop.
\<close>

theorem uncertainty_quadratic_form:
  assumes "read_file atof junk fptr hdr s0 = Inr s" and "beta_matrices s0 = []"
      and "inj_on (list_ilist h) {..<list_inum h}" and "list_inum h \<le> ntotal h"
      and "ii < list_inum h" and "c < 3"
      and "1 \<le> atom_type h (list_ilist h ii)" and "atom_type h (list_ilist h ii) \<le> n_species s"
  shows "let i = list_ilist h ii;
             D = nat (n_descriptors s);
             Sigma = coeff (beta_matrices s ! nat (atom_type h i - 1));
             d = desc_derv (accumulate h (reset h (grow h s))) (i * 3 + c)
         in desc_derv (compute_peratom h s) (i * 3 + c) = d
          \<and> stds (compute_peratom h s) i c = (\<Sum>nl1<D. \<Sum>nl2<D. d nl1 * Sigma nl1 nl2 * d nl2)
          \<and> stds (compute_peratom h s) i c =
              (\<Sum>nl1<D. \<Sum>nl2 = nl1..<D.
                 (if nl1 = nl2 then 1 else 2) * (d nl1 * Sigma nl1 nl2 * d nl2))"
proof -
  define i where "i = list_ilist h ii"
  define D where "D = nat (n_descriptors s)"
  define k where "k = nat (atom_type h i - 1)"
  define d where "d = desc_derv (accumulate h (reset h (grow h s))) (i * 3 + c)"
  from assms(7,8) have k: "k < nat (n_species s)"
    by (simp add: k_def i_def)
  have M: "beta_matrices s ! k = sym_matrix (beta s) D (k * row_start D D)"
    using read_file_matrix [OF assms(1) k] assms(2) by (simp add: D_def)
  have sym: "\<forall>a<D. \<forall>b<D. coeff (beta_matrices s ! k) a b = coeff (beta_matrices s ! k) b a"
    unfolding M by (simp add: sym_matrix_symmetric [of "beta s" D "k * row_start D D"])
  have st: "stds (compute_peratom h s) i c = upper_form d (coeff (beta_matrices s ! k)) D"
    unfolding i_def k_def D_def d_def
    using assms(3,5,4,6) by (rule stds_compute_peratom)
  have full: "upper_form d (coeff (beta_matrices s ! k)) D =
     (\<Sum>nl1<D. \<Sum>nl2<D. d nl1 * coeff (beta_matrices s ! k) nl1 nl2 * d nl2)"
    using sym by (rule upper_form_full)
  have wts: "upper_form d (coeff (beta_matrices s ! k)) D =
     (\<Sum>nl1<D. \<Sum>nl2 = nl1..<D.
        (if nl1 = nl2 then 1 else 2) * (d nl1 * coeff (beta_matrices s ! k) nl1 nl2 * d nl2))"
    by (rule upper_form_weights)
  have dd: "desc_derv (compute_peratom h s) (i * 3 + c) = d"
    by (simp add: d_def compute_peratom_fields)
  show ?thesis
    unfolding Let_def i_def [symmetric] D_def [symmetric] k_def [symmetric] d_def [symmetric]
    using dd st full wts by simp
qed

theorem uncertainty_quadratic_form_witness:
  "stds (compute_peratom two_atoms loaded_object) (list_ilist two_atoms 0) 0 = 1"
proof -
  have inj: "inj_on (list_ilist two_atoms) {..<list_inum two_atoms}"
    by (auto simp: two_atoms_fields inj_on_def)
  have le: "list_inum two_atoms \<le> ntotal two_atoms" and ii: "0 < list_inum two_atoms"
    by (simp_all add: two_atoms_fields)
  have c: "(0::nat) < 3" by simp
  have ty: "1 \<le> atom_type two_atoms (list_ilist two_atoms 0)"
    "atom_type two_atoms (list_ilist two_atoms 0) \<le> n_species loaded_object"
    by (simp_all add: two_atoms_fields loaded_fields)
  have d: "desc_derv (accumulate two_atoms (reset two_atoms (grow two_atoms loaded_object))) 0 0 = 1"
    using two_atoms_first_step [of 0 0] by (simp add: compute_peratom_fields)
  have M: "coeff (sym_matrix [1] (Suc 0) 0) 0 0 = 1"
    by (simp add: sym_matrix_def cell_def row_start_def)
  from uncertainty_quadratic_form [OF load_one fresh_object_matrices inj le ii c ty]
  show ?thesis
    by (simp add: Let_def two_atoms_fields loaded_fields d M)
qed

subsection \<open>C3: the check of beta\_size\<close>



subsection \<open>C4: the column sums of the derivative table\<close>

text \<open>
  C4, at a concrete input. The accumulation loop by itself leaves every column sum over
  the atoms \<open>0, \<dots>, N - 1\<close> as it finds it (lemma \<open>accumulate_sum\<close>: what is added to the row
  of atom \<open>i\<close> is subtracted from the row of atom \<open>j\<close>), so the sum after accumulation is the
  sum after the zeroing loop, and that loop does not reach the ghost atoms (see C9). With
  one owned and one ghost atom and all memory zero at the start, two consecutive calls of
  \<open>compute_peratom\<close> leave the table with the sum \<open>-1\<close> over both atoms in column \<open>0\<close>,
  component \<open>0\<close>: the ghost row still holds the \<open>-1\<close> of the first call and receives another
  \<open>-1\<close>, the owned row holds \<open>1\<close>.
\<close>

theorem column_sum_not_zero:
  "(\<Sum>a<2. desc_derv (compute_peratom two_atoms (compute_peratom two_atoms loaded_object))
             (a * 3 + 0) 0) = - 1"
proof -
  have "(\<Sum>a<2. desc_derv (compute_peratom two_atoms (compute_peratom two_atoms loaded_object))
             (a * 3 + 0) 0)
        = (\<Sum>a<2. desc_derv (accumulate two_atoms (reset two_atoms
               (grow two_atoms (compute_peratom two_atoms loaded_object)))) (a * 3 + 0) 0)"
    by (simp only: compute_peratom_fields(5))
  also have "\<dots> = (\<Sum>a<2. desc_derv (reset two_atoms
               (grow two_atoms (compute_peratom two_atoms loaded_object))) (a * 3 + 0) 0)"
    by (rule accumulate_sum [OF two_atoms_in_range]) simp
  also have "\<dots> = - 1"
    by (simp add: two_atoms_second_reset lessThan_Suc numeral_2_eq_2)
  finally show ?thesis .
qed

subsection \<open>C5: no reduction between accumulation and evaluation\<close>

text \<open>
  C5, at a concrete input. \<open>compute_peratom\<close> deposits on the rows of ghost atoms and then
  evaluates, with no reverse communication in between (lemma \<open>compute_peratom_fields\<close>: the
  derivative table at the end of the call is the one the accumulation loop left), and the
  pack and unpack pair moves \<open>stds\<close>, never a derivative row (lemmas \<open>pack_reads_stds\<close> and
  \<open>unpack_keeps_desc_derv\<close>). Two atoms at distance \<open>1\<close>, one descriptor, matrix \<open>(1)\<close>. On a
  single process that owns both, the row of the atom at the origin ends as \<open>2\<close> and its
  uncertainty as \<open>4\<close>. With one atom on each of two processes, the process that owns the
  atom at the origin leaves its row at \<open>1\<close>, with \<open>-1\<close> on the row of its ghost atom, and
  its uncertainty at \<open>1\<close>; the missing \<open>1\<close> sits on the ghost row of the other process.
  Running the pack of the other process for its ghost atom and the unpack of this process
  for its owned atom changes neither the row nor the uncertainty: they stay at \<open>1\<close>.
\<close>

theorem ghost_rows_not_reduced:
  "desc_derv (compute_peratom two_owned loaded_object) (0 * 3 + 0) 0 = 2
   \<and> stds (compute_peratom two_owned loaded_object) 0 0 = 4
   \<and> desc_derv (compute_peratom two_atoms loaded_object) (0 * 3 + 0) 0 = 1
   \<and> desc_derv (compute_peratom two_atoms loaded_object) (1 * 3 + 0) 0 = - 1
   \<and> stds (compute_peratom two_atoms loaded_object) 0 0 = 1
   \<and> desc_derv (compute_peratom two_atoms_remote loaded_object) (1 * 3 + 0) 0 = 1
   \<and> desc_derv (unpack_reverse_comm 1 send_list
                  (snd (pack_reverse_comm 1 1 zero_memory
                          (compute_peratom two_atoms_remote loaded_object)))
                  (compute_peratom two_atoms loaded_object)) (0 * 3 + 0) 0 = 1
   \<and> stds (unpack_reverse_comm 1 send_list
             (snd (pack_reverse_comm 1 1 zero_memory
                     (compute_peratom two_atoms_remote loaded_object)))
             (compute_peratom two_atoms loaded_object)) 0 0 = 1"
  by code_simp

subsection \<open>C6: an unknown radial-basis token\<close>

text \<open>
  C6 as the code has it. The token of the radial basis decides nothing about the outcome
  of \<open>read_file\<close>: with any other token in its place the call fails with the same error or
  not at all. When the call succeeds, the basis function is \<open>chebyshev\<close> with the
  hyper-parameters \<open>[0, cutoff]\<close> if the token is \<open>"chebyshev"\<close>, and otherwise both are what
  they were before the call.
\<close>

theorem radial_token_resolution:
  "((read_file atof junk fptr (hdr\<lparr>radial_string := tok\<rparr>) s = Inl e)
      = (read_file atof junk fptr hdr s = Inl e))
   \<and> (\<forall>s'. read_file atof junk fptr hdr s = Inr s' \<longrightarrow>
          basis_function s' =
            (if radial_string hdr = ''chebyshev'' then Some chebyshev else basis_function s)
        \<and> radial_hyps s' =
            (if radial_string hdr = ''chebyshev'' then [0, scan_cutoff hdr] else radial_hyps s))"
proof -
  have "(read_file atof junk fptr (hdr\<lparr>radial_string := tok\<rparr>) s = Inl e)
      = (read_file atof junk fptr hdr s = Inl e)"
    by (auto simp: read_file_unfold split: option.splits sum.splits prod.splits)
  moreover have "basis_function s' =
            (if radial_string hdr = ''chebyshev'' then Some chebyshev else basis_function s)
        \<and> radial_hyps s' =
            (if radial_string hdr = ''chebyshev'' then [0, scan_cutoff hdr] else radial_hyps s)"
    if "read_file atof junk fptr hdr s = Inr s'" for s'
    using read_file_success(11,12) [OF that] by simp
  ultimately show ?thesis by blast
qed

theorem radial_token_resolution_witness:
  "basis_function (projr (read_file atof_digit zero_memory (Some tail_one) header_unknown_basis
                            fresh_object))
     = basis_function fresh_object
   \<and> basis_function loaded_object = Some chebyshev"
proof -
  have "\<not> isl (read_file atof_digit zero_memory (Some tail_one) header_unknown_basis fresh_object)"
    by code_simp
  then have u: "read_file atof_digit zero_memory (Some tail_one) header_unknown_basis fresh_object
           = Inr (projr (read_file atof_digit zero_memory (Some tail_one) header_unknown_basis
                            fresh_object))"
    by simp
  have r: "radial_string header_unknown_basis \<noteq> ''chebyshev''"
    "radial_string header_1101 = ''chebyshev''"
    by (simp_all add: header_unknown_basis_def header_1101_def)
  from radial_token_resolution [where atof = atof_digit and junk = zero_memory
         and fptr = "Some tail_one" and hdr = header_unknown_basis and s = fresh_object] u r
       radial_token_resolution [where atof = atof_digit and junk = zero_memory
         and fptr = "Some tail_one" and hdr = header_1101 and s = fresh_object] load_one
  show ?thesis by simp
qed

text \<open>
  C6 as it is stated fails: the file with the token \<open>"bessel"\<close> is loaded, and the basis
  function of the loaded object is unset.
\<close>

theorem unknown_basis_accepted:
  "\<not> isl (read_file atof_digit zero_memory (Some tail_one) header_unknown_basis fresh_object)
   \<and> basis_function
         (projr (read_file atof_digit zero_memory (Some tail_one) header_unknown_basis fresh_object))
       = None
   \<and> radial_string header_unknown_basis \<noteq> ''chebyshev''"
  by code_simp

subsection \<open>C7: what pack and unpack transfer\<close>

text \<open>
  C7. For every count \<open>n\<close> and start index \<open>first\<close>, \<open>pack_reverse_comm\<close> writes the three
  values \<open>stds[i][0..2]\<close> of each atom \<open>i\<close> of the range \<open>first, \<dots>, first + n - 1\<close>, in atom
  order, three per atom, into the front of the buffer, leaves the rest of the buffer as it
  was, and returns the number \<open>3 n\<close> of values written. For every index list,
  \<open>unpack_reverse_comm\<close> adds to \<open>stds[a][c]\<close> the buffer entries \<open>3 i + c\<close> of all positions
  \<open>i\<close> whose destination \<open>list[i]\<close> is \<open>a\<close>: it adds to the old value, it does not replace
  it; when the destinations are distinct, atom \<open>list[i]\<close> receives exactly the \<open>i\<close>-th
  triple.
\<close>

theorem pack_unpack_contract:
  "fst (pack_reverse_comm n first buf s) = 3 * n
   \<and> (\<forall>k<n. \<forall>c<3. snd (pack_reverse_comm n first buf s) (3 * k + c) = stds s (first + k) c)
   \<and> (\<forall>q. 3 * n \<le> q \<longrightarrow> snd (pack_reverse_comm n first buf s) q = buf q)
   \<and> (\<forall>a. \<forall>c<3. stds (unpack_reverse_comm n list buf s) a c
                      = stds s a c + (\<Sum>i<n. if list i = a then buf (3 * i + c) else 0))
   \<and> (inj_on list {..<n} \<longrightarrow>
        (\<forall>i<n. \<forall>c<3. stds (unpack_reverse_comm n list buf s) (list i) c
                         = stds s (list i) c + buf (3 * i + c)))"
proof -
  have pack: "pack_reverse_comm n first buf s =
      (3 * n, (\<lambda>q. if q < 3 * n then stds s (first + q div 3) (q mod 3) else buf q))"
    by (simp add: pack_reverse_comm_def pack_loop_closed)
  have unpack: "stds (unpack_reverse_comm n list buf s) a c
                 = stds s a c + (\<Sum>i<n. if list i = a then buf (3 * i + c) else 0)"
    if "c < 3" for a c
    using that by (simp add: unpack_reverse_comm_def unpack_loop_closed)
  have entry: "snd (pack_reverse_comm n first buf s) (3 * k + c) = stds s (first + k) c"
    if "k < n" "c < 3" for k c
  proof -
    from that have "3 * k + c < 3 * n" by simp
    moreover from that have "(3 * k + c) div 3 = k" "(3 * k + c) mod 3 = c" by simp_all
    ultimately show ?thesis by (simp add: pack)
  qed
  have distinct: "stds (unpack_reverse_comm n list buf s) (list i) c
                    = stds s (list i) c + buf (3 * i + c)"
    if "inj_on list {..<n}" "i < n" "c < 3" for i c
    using sum_inj_pick [OF that(1,2), of "\<lambda>k. buf (3 * k + c)"] that(3)
    by (simp add: unpack)
  show ?thesis
    using entry unpack distinct by (simp add: pack)
qed

theorem pack_unpack_contract_witness:
  "snd (pack_reverse_comm 2 0 zero_memory (compute_peratom two_atoms loaded_object)) (3 * 0 + 2)
     = stds (compute_peratom two_atoms loaded_object) (0 + 0) 2
   \<and> stds (compute_peratom two_atoms loaded_object) (0 + 0) 2 = 1
   \<and> stds (unpack_reverse_comm 2 (\<lambda>i. i) stale_buffer (compute_peratom two_atoms loaded_object)) 0 1
       = stds (compute_peratom two_atoms loaded_object) 0 1 + stale_buffer (3 * 0 + 1)
   \<and> stds (compute_peratom two_atoms loaded_object) 0 1 + stale_buffer (3 * 0 + 1) = 8"
proof -
  have a: "(0::nat) < 2" and b: "(2::nat) < 3" and d: "(1::nat) < 3"
    by simp_all
  have e: "inj_on (\<lambda>i::nat. i) {..<2}" by simp
  have v: "stds (compute_peratom two_atoms loaded_object) (0 + 0) 2 = 1"
    "stds (compute_peratom two_atoms loaded_object) 0 1 + stale_buffer (3 * 0 + 1) = 8"
    by code_simp+
  from pack_unpack_contract [of 2 0 zero_memory "compute_peratom two_atoms loaded_object"]
  have p: "snd (pack_reverse_comm 2 0 zero_memory (compute_peratom two_atoms loaded_object))
             (3 * 0 + 2) = stds (compute_peratom two_atoms loaded_object) (0 + 0) 2"
    using a b by blast
  from pack_unpack_contract [of 2 0 stale_buffer "compute_peratom two_atoms loaded_object"
         "\<lambda>i. i"] e
  have u: "stds (unpack_reverse_comm 2 (\<lambda>i. i) stale_buffer
                   (compute_peratom two_atoms loaded_object)) 0 1
       = stds (compute_peratom two_atoms loaded_object) 0 1 + stale_buffer (3 * 0 + 1)"
    using a d by blast
  from p u v show ?thesis by blast
qed

subsection \<open>C8: grab writes past the end of the array\<close>

text \<open>
  C8, at a concrete input. When the lines of the file hold exactly the \<open>n\<close> wanted tokens,
  none of them blank, \<open>grab\<close> stores exactly these \<open>n\<close> values in order, however they are
  spread over the lines (lemma \<open>grab_aligned\<close>). It does not when a line holds more tokens than
  are still wanted: one value is wanted (\<open>beta_size = 1\<close>, one species) and the line is
  \<open>"1 2"\<close>, two tokens. \<open>grab\<close> stores the first at index \<open>0\<close> and, without comparing the
  index with \<open>n\<close>, the second at index \<open>1\<close>, outside the array of one element; \<open>read_file\<close> on
  that file ends in this overflow.
\<close>

theorem grab_overflow:
  "grab atof_digit tail_two 1 (map zero_memory [0..<1]) = Inl (HeapOverflow 1)
   \<and> isl (read_file atof_digit zero_memory (Some tail_two) header_1101 fresh_object)
   \<and> projl (read_file atof_digit zero_memory (Some tail_two) header_1101 fresh_object)
       = HeapOverflow 1
   \<and> strtok_all (c_str tail_two) = [''1'', ''2'']"
  by code_simp

subsection \<open>C9: the zeroing loop does not reach the ghost atoms\<close>

text \<open>
  C9, at a concrete input. The zeroing loop runs \<open>ii\<close> over \<open>0, \<dots>, ntotal - 1\<close> but zeroes
  the atom \<open>ilist[ii]\<close>, and \<open>ilist\<close> lists the owned atoms only (lemmas \<open>stds_reset\<close> and
  \<open>desc_derv_reset\<close>: exactly the atoms among \<open>ilist[0], \<dots>, ilist[ntotal - 1]\<close> are zeroed).
  With one owned atom \<open>0\<close> and one ghost atom \<open>1\<close>, at the top of the second call, after the
  zeroing loop, the derivative row of the ghost atom (row \<open>1 * 3 + 0\<close>, column \<open>0 < D\<close>) still
  holds the \<open>-1\<close> of the first call, while the row of the owned atom is zero.
\<close>

theorem ghost_row_not_zeroed:
  "desc_derv (reset two_atoms (grow two_atoms (compute_peratom two_atoms loaded_object)))
     (1 * 3 + 0) 0 = - 1
   \<and> desc_derv (reset two_atoms (grow two_atoms (compute_peratom two_atoms loaded_object)))
     (0 * 3 + 0) 0 = 0
   \<and> ntotal two_atoms = atom_nlocal two_atoms + atom_nghost two_atoms
   \<and> 1 < atom_nlocal two_atoms + atom_nghost two_atoms
   \<and> 0 < nat (n_descriptors (grow two_atoms (compute_peratom two_atoms loaded_object)))"
  by (simp add: two_atoms_second_reset two_atoms_fields grow_fields compute_peratom_fields
        loaded_fields)

subsection \<open>C10: the declared width of the reverse communication\<close>

text \<open>
  C10, at a concrete input. The object is constructed, loaded, and has been through one
  \<open>compute_peratom\<close> on a host with one owned atom and one ghost atom, so that \<open>stds\<close> exists
  and holds \<open>nmax = 2\<close> atoms. It still declares \<open>comm_reverse = 1\<close> value per atom, the
  value the constructor set. \<open>pack_reverse_comm\<close> for the single ghost atom (\<open>n = 1\<close>,
  \<open>first = 1\<close>) writes and returns \<open>3\<close> values, more than \<open>comm_reverse * n = 1\<close>: the buffer
  entries \<open>1\<close> and \<open>2\<close>, which held \<open>7\<close>, are overwritten with \<open>stds[1][1]\<close> and
  \<open>stds[1][2]\<close>.
\<close>

theorem declared_width_too_small:
  "nmax (compute_peratom two_atoms loaded_object) = 2
   \<and> comm_reverse (compute_peratom two_atoms loaded_object) = 1
   \<and> fst (pack_reverse_comm 1 1 stale_buffer (compute_peratom two_atoms loaded_object)) = 3
   \<and> stale_buffer 1 = 7 \<and> stale_buffer 2 = 7
   \<and> snd (pack_reverse_comm 1 1 stale_buffer (compute_peratom two_atoms loaded_object)) 1
       = stds (compute_peratom two_atoms loaded_object) 1 1
   \<and> snd (pack_reverse_comm 1 1 stale_buffer (compute_peratom two_atoms loaded_object)) 2
       = stds (compute_peratom two_atoms loaded_object) 1 2
   \<and> stds (compute_peratom two_atoms loaded_object) 1 1 = 0
   \<and> stds (compute_peratom two_atoms loaded_object) 1 2 = 0"
  by code_simp

end
